theory Spec2Isabelle
  imports Main "HOL-Library.Word" "HOL-Library.Sublist"
begin

section \<open>Python values\<close>

text \<open>
  A Python \<open>str\<close> is a sequence of Unicode code points; slicing and \<open>len\<close> count
  code points. The literals of the script are ASCII except for a few pictographs,
  which are written by their code point.
\<close>

type_synonym pystr = "nat list"

definition ascii :: "string \<Rightarrow> pystr" where
  "ascii s = map of_char s"

text \<open>
  The values the \<open>json\<close> module reads and writes: \<open>None\<close>, \<open>bool\<close>, \<open>int\<close>
  (unbounded), \<open>float\<close> (the 64 bits of the IEEE double), \<open>str\<close>, \<open>list\<close>, and \<open>dict\<close>
  with \<open>str\<close> keys, as the list of its items in insertion order (keys distinct; a
  lookup takes the first item with the key).
\<close>

datatype pyval =
    PyNone
  | PyBool bool
  | PyInt int
  | PyFloat "64 word"
  | PyStr pystr
  | PyList "pyval list"
  | PyDict "(pystr \<times> pyval) list"

datatype error =
    OSError
  | BrokenPipeError
  | JSONDecodeError
  | ValueError
  | RecursionError
  | TypeError
  | AttributeError
  | KeyError

text \<open>Truth value testing, as \<open>or\<close> and \<open>if\<close> apply it (\<open>0.0\<close> and \<open>-0.0\<close> are false).\<close>

fun py_truthy :: "pyval \<Rightarrow> bool" where
  "py_truthy PyNone = False"
| "py_truthy (PyBool b) = b"
| "py_truthy (PyInt i) = (i \<noteq> 0)"
| "py_truthy (PyFloat w) = (w \<noteq> 0 \<and> w \<noteq> 0x8000000000000000)"
| "py_truthy (PyStr s) = (s \<noteq> [])"
| "py_truthy (PyList xs) = (xs \<noteq> [])"
| "py_truthy (PyDict kvs) = (kvs \<noteq> [])"

definition py_or :: "pyval \<Rightarrow> pyval \<Rightarrow> pyval" where
  "py_or a b = (if py_truthy a then a else b)"

text \<open>\<open>key in v\<close> for a \<open>str\<close> key: a key of a dict, an element of a list, a
  substring of a string; the other values are not containers.\<close>

fun py_in :: "pystr \<Rightarrow> pyval \<Rightarrow> error + bool" where
  "py_in key (PyDict kvs) = Inr (key \<in> set (map fst kvs))"
| "py_in key (PyList xs) = Inr (PyStr key \<in> set xs)"
| "py_in key (PyStr s) = Inr (sublist key s)"
| "py_in key v = Inl TypeError"

text \<open>\<open>v[key]\<close> for a \<open>str\<close> key: lists and strings take integer indices only.\<close>

fun py_getitem :: "pyval \<Rightarrow> pystr \<Rightarrow> error + pyval" where
  "py_getitem (PyDict kvs) key =
     (case map_of kvs key of None \<Rightarrow> Inl KeyError | Some x \<Rightarrow> Inr x)"
| "py_getitem v key = Inl TypeError"

text \<open>\<open>v.get(key, default)\<close>: only a dict has the method.\<close>

fun py_get :: "pyval \<Rightarrow> pystr \<Rightarrow> pyval \<Rightarrow> error + pyval" where
  "py_get (PyDict kvs) key dflt =
     (case map_of kvs key of None \<Rightarrow> Inr dflt | Some x \<Rightarrow> Inr x)"
| "py_get v key dflt = Inl AttributeError"

fun py_len :: "pyval \<Rightarrow> error + nat" where
  "py_len (PyDict kvs) = Inr (length kvs)"
| "py_len (PyList xs) = Inr (length xs)"
| "py_len (PyStr s) = Inr (length s)"
| "py_len v = Inl TypeError"

text \<open>\<open>v[:n]\<close>. A dict rejects the slice as a key (with \<open>TypeError\<close> while slices
  are unhashable, with \<open>KeyError\<close> from Python 3.12 on).\<close>

fun py_slice_to :: "nat \<Rightarrow> pyval \<Rightarrow> error + pyval" where
  "py_slice_to n (PyList xs) = Inr (PyList (take n xs))"
| "py_slice_to n (PyStr s) = Inr (PyStr (take n s))"
| "py_slice_to n v = Inl TypeError"

text \<open>The items a \<open>for\<close> loop visits: a string yields its one-character strings,
  a dict its keys.\<close>

fun py_iter :: "pyval \<Rightarrow> error + pyval list" where
  "py_iter (PyList xs) = Inr xs"
| "py_iter (PyStr s) = Inr (map (\<lambda>ch. PyStr [ch]) s)"
| "py_iter (PyDict kvs) = Inr (map (\<lambda>kv. PyStr (fst kv)) kvs)"
| "py_iter v = Inl TypeError"

text \<open>Decimal digits of a natural number, and \<open>str\<close> of an \<open>int\<close>.\<close>

fun str_nat :: "nat \<Rightarrow> pystr" where
  "str_nat n = (if n < 10 then [48 + n] else str_nat (n div 10) @ [48 + n mod 10])"

definition str_int :: "int \<Rightarrow> pystr" where
  "str_int i = (if i < 0 then 45 # str_nat (nat (- i)) else str_nat (nat i))"

subsection \<open>The library functions the script calls\<close>

text \<open>
  \<open>json.dumps\<close>, \<open>json.dumps(_, indent=2)\<close>, \<open>json.loads\<close> and the \<open>repr\<close> of floats
  and containers belong to the Python library, not to the script; they are
  parameters of the model. \<open>json.dumps\<close> does not accept every value: it raises
  \<open>ValueError\<close> for an \<open>int\<close> of more than 4300 digits and \<open>RecursionError\<close> for a
  value nested too deeply. So \<open>dumps\<close> and \<open>dumps_indent\<close> yield the text or the
  exception. So does \<open>loads\<close>: \<open>json.loads\<close> raises \<open>JSONDecodeError\<close> for a text it
  cannot read, \<open>ValueError\<close> for a number of more than 4300 digits and
  \<open>RecursionError\<close> for a text nested too deeply.
\<close>

record pylib =
  dumps :: "pyval \<Rightarrow> error + pystr"
  dumps_indent :: "pyval \<Rightarrow> error + pystr"
  loads :: "pystr \<Rightarrow> error + pyval"
  repr :: "pyval \<Rightarrow> pystr"

text \<open>What an f-string puts in place of \<open>{v}\<close>, that is \<open>str(v)\<close>.\<close>

fun py_str :: "pylib \<Rightarrow> pyval \<Rightarrow> pystr" where
  "py_str L (PyStr s) = s"
| "py_str L PyNone = ascii ''None''"
| "py_str L (PyBool b) = (if b then ascii ''True'' else ascii ''False'')"
| "py_str L (PyInt i) = str_int i"
| "py_str L v = repr L v"

section \<open>The client and its child process\<close>

text \<open>
  The child process as the client sees it. \<open>writes_left\<close> is the number of writes
  its standard input still accepts before the pipe breaks (\<open>None\<close>: it stays open);
  a broken pipe stays broken. \<open>stdout_pending\<close> holds the lines the child still
  delivers on its standard output; when they are used up the stream is at its end.
  Every \<open>readline\<close> returns: a child that neither answers nor closes its output,
  on which the script would wait for ever, is outside the model.
\<close>

record popen =
  writes_left :: "nat option"
  stdout_pending :: "pystr list"

text \<open>What a run does to the outside, in order.\<close>

datatype event =
    Print pystr
  | Write pystr
  | Flush
  | Readline pystr

text \<open>The object \<open>self\<close> (\<open>process\<close>, \<open>request_id\<close>) together with the history of
  the run so far.\<close>

record client =
  process :: popen
  request_id :: int
  trace :: "event list"

definition print :: "pystr \<Rightarrow> client \<Rightarrow> client" where
  "print s c = c\<lparr>trace := trace c @ [Print s]\<rparr>"

definition stdin_write :: "pystr \<Rightarrow> client \<Rightarrow> (error + unit) \<times> client" where
  "stdin_write s c =
     (case writes_left (process c) of
        None \<Rightarrow> (Inr (), c\<lparr>trace := trace c @ [Write s]\<rparr>)
      | Some 0 \<Rightarrow> (Inl BrokenPipeError, c)
      | Some (Suc k) \<Rightarrow>
          (Inr (), c\<lparr>process := (process c)\<lparr>writes_left := Some k\<rparr>,
                     trace := trace c @ [Write s]\<rparr>))"

definition stdin_flush :: "client \<Rightarrow> client" where
  "stdin_flush c = c\<lparr>trace := trace c @ [Flush]\<rparr>"

text \<open>\<open>readline\<close> returns the next line, or the empty string at the end of the
  stream.\<close>

definition stdout_readline :: "client \<Rightarrow> pystr \<times> client" where
  "stdout_readline c =
     (case stdout_pending (process c) of
        [] \<Rightarrow> ([], c\<lparr>trace := trace c @ [Readline []]\<rparr>)
      | l # ls \<Rightarrow>
          (l, c\<lparr>process := (process c)\<lparr>stdout_pending := ls\<rparr>,
                 trace := trace c @ [Readline l]\<rparr>))"

subsection \<open>\<open>__init__\<close>\<close>


subsection \<open>\<open>send_request\<close>\<close>

text \<open>The argument \<open>params\<close> is \<open>None\<close> when the caller omits it; the body then sees
  the default, Python's \<open>None\<close>.\<close>

definition arg_value :: "pyval option \<Rightarrow> pyval" where
  "arg_value params = (case params of None \<Rightarrow> PyNone | Some v \<Rightarrow> v)"

definition make_request :: "pystr \<Rightarrow> pyval option \<Rightarrow> int \<Rightarrow> pyval" where
  "make_request method params rid =
     PyDict [(ascii ''jsonrpc'', PyStr (ascii ''2.0'')),
             (ascii ''method'', PyStr method),
             (ascii ''params'', py_or (arg_value params) (PyDict [])),
             (ascii ''id'', PyInt rid)]"

text \<open>The counter is advanced (line 31) before the first call of \<open>json.dumps\<close>
  (line 34); an exception of \<open>json.dumps\<close> on line 34 or 37 ends the call before
  anything is written to the child.\<close>

definition send_request ::
    "pylib \<Rightarrow> client \<Rightarrow> pystr \<Rightarrow> pyval option \<Rightarrow> (error + pyval) \<times> client" where
  "send_request L c method params =
     (let request = make_request method params (request_id c);
          c1 = c\<lparr>request_id := request_id c + 1\<rparr>;
          c2 = print (10 # 128228 # ascii '' Sending: '' @ method) c1
      in case dumps_indent L (arg_value params) of
           Inl e \<Rightarrow> (Inl e, c2)
         | Inr params_text \<Rightarrow>
             (let c3 = print (ascii ''   Params: '' @ params_text) c2
              in case dumps L request of
                   Inl e \<Rightarrow> (Inl e, c3)
                 | Inr request_text \<Rightarrow>
                     (case stdin_write (request_text @ [10]) c3 of
                        (Inl e, c4) \<Rightarrow> (Inl e, c4)
                      | (Inr u, c4) \<Rightarrow>
                          (let c5 = stdin_flush c4;
                               (response_line, c6) = stdout_readline c5
                           in if response_line \<noteq> [] then
                                (case loads L response_line of
                                   Inl e \<Rightarrow> (Inl e, c6)
                                 | Inr response \<Rightarrow>
                                     (case dumps_indent L response of
                                        Inl e \<Rightarrow> (Inl e, c6)
                                      | Inr response_text \<Rightarrow>
                                          (Inr response,
                                           print (128229 # ascii '' Response: ''
                                                    @ take 500 response_text @ ascii ''...'')
                                             c6)))
                              else (Inr (PyDict []), c6)))))"

subsection \<open>\<open>call_tool\<close>\<close>

definition call_tool ::
    "pylib \<Rightarrow> client \<Rightarrow> pystr \<Rightarrow> pyval \<Rightarrow> (error + pyval) \<times> client" where
  "call_tool L c tool_name arguments =
     send_request L c (ascii ''tools/call'')
       (Some (PyDict [(ascii ''name'', PyStr tool_name),
                      (ascii ''arguments'', arguments)]))"

subsection \<open>\<open>run_tests\<close>\<close>

text \<open>A step of the suite whose response is not looked at.\<close>

definition discard :: "(error + pyval) \<times> client \<Rightarrow> (error + unit) \<times> client" where
  "discard rc = (case rc of (Inl e, c') \<Rightarrow> (Inl e, c') | (Inr r, c') \<Rightarrow> (Inr (), c'))"

definition test_initialize :: "pylib \<Rightarrow> client \<Rightarrow> (error + unit) \<times> client" where
  "test_initialize L c =
     discard (send_request L
       (print (10 # 49 # 65039 # 8419 # ascii ''  INITIALIZE CONNECTION'') c)
       (ascii ''initialize'')
       (Some (PyDict [(ascii ''protocolVersion'', PyStr (ascii ''0.1.0'')),
                      (ascii ''capabilities'', PyDict [])])))"

text \<open>The loop over \<open>tools[:5]\<close>: one line per tool, until an item raises.\<close>

fun print_tools :: "pylib \<Rightarrow> pyval list \<Rightarrow> client \<Rightarrow> (error + unit) \<times> client" where
  "print_tools L [] c = (Inr (), c)"
| "print_tools L (tool # rest) c =
     (case py_get tool (ascii ''name'') PyNone of
        Inl e \<Rightarrow> (Inl e, c)
      | Inr name \<Rightarrow>
          (case py_get tool (ascii ''description'') (PyStr []) of
             Inl e \<Rightarrow> (Inl e, c)
           | Inr description \<Rightarrow>
               (case py_slice_to 60 description of
                  Inl e \<Rightarrow> (Inl e, c)
                | Inr d \<Rightarrow>
                    print_tools L rest
                      (print (ascii ''   - '' @ py_str L name @ ascii '': ''
                                @ py_str L d @ ascii ''...'') c))))"

definition show_tools :: "pylib \<Rightarrow> pyval \<Rightarrow> client \<Rightarrow> (error + unit) \<times> client" where
  "show_tools L response c =
     (case py_in (ascii ''result'') response of
        Inl e \<Rightarrow> (Inl e, c)
      | Inr False \<Rightarrow> (Inr (), c)
      | Inr True \<Rightarrow>
          (case py_getitem response (ascii ''result'') of
             Inl e \<Rightarrow> (Inl e, c)
           | Inr result \<Rightarrow>
               (case py_get result (ascii ''tools'') (PyList []) of
                  Inl e \<Rightarrow> (Inl e, c)
                | Inr tools \<Rightarrow>
                    (case py_len tools of
                       Inl e \<Rightarrow> (Inl e, c)
                     | Inr n \<Rightarrow>
                         (let c' = print (ascii ''   Found '' @ str_nat n @ ascii '' tools:'') c
                          in case py_slice_to 5 tools of
                               Inl e \<Rightarrow> (Inl e, c')
                             | Inr first5 \<Rightarrow>
                                 (case py_iter first5 of
                                    Inl e \<Rightarrow> (Inl e, c')
                                  | Inr items \<Rightarrow> print_tools L items c'))))))"

definition test_list_tools :: "pylib \<Rightarrow> client \<Rightarrow> (error + unit) \<times> client" where
  "test_list_tools L c =
     (case send_request L
             (print (10 # 50 # 65039 # 8419 # ascii ''  LIST AVAILABLE TOOLS'') c)
             (ascii ''tools/list'') (Some (PyDict [])) of
        (Inl e, c') \<Rightarrow> (Inl e, c')
      | (Inr response, c') \<Rightarrow> show_tools L response c')"

definition test_navigate :: "pylib \<Rightarrow> client \<Rightarrow> (error + unit) \<times> client" where
  "test_navigate L c =
     discard (call_tool L
       (print (10 # 51 # 65039 # 8419 # ascii ''  NAVIGATE TO TEST PAGE'') c)
       (ascii ''navigate'')
       (PyDict [(ascii ''url'', PyStr (ascii ''http://localhost:8081/test''))]))"

definition test_analyze_ui :: "pylib \<Rightarrow> client \<Rightarrow> (error + unit) \<times> client" where
  "test_analyze_ui L c =
     discard (call_tool L
       (print (10 # 52 # 65039 # 8419 # ascii ''  ANALYZE PAGE UI'') c)
       (ascii ''analyze_ui'')
       (PyDict []))"

definition test_verify_page :: "pylib \<Rightarrow> client \<Rightarrow> (error + unit) \<times> client" where
  "test_verify_page L c =
     discard (call_tool L
       (print (10 # 53 # 65039 # 8419 # ascii ''  VERIFY PAGE CONTENT'') c)
       (ascii ''verify_page'')
       (PyDict [(ascii ''expectedContent'',
                   PyList [PyStr (ascii ''Test''), PyStr (ascii ''Form'')]),
                (ascii ''unexpectedContent'',
                   PyList [PyStr (ascii ''404''), PyStr (ascii ''Error'')])]))"

definition test_click_button :: "pylib \<Rightarrow> client \<Rightarrow> (error + unit) \<times> client" where
  "test_click_button L c =
     discard (call_tool L
       (print (10 # 54 # 65039 # 8419 # ascii ''  CLICK BUTTON TEST'') c)
       (ascii ''click_button'')
       (PyDict [(ascii ''text'', PyStr (ascii ''Submit''))]))"

definition test_run_flow :: "pylib \<Rightarrow> client \<Rightarrow> (error + unit) \<times> client" where
  "test_run_flow L c =
     discard (call_tool L
       (print (10 # 55 # 65039 # 8419 # ascii ''  RUN NATURAL LANGUAGE FLOW'') c)
       (ascii ''run_flow'')
       (PyDict [(ascii ''goal'', PyStr (ascii ''Fill out the test form with sample data'')),
                (ascii ''url'', PyStr (ascii ''http://localhost:8081/test/forms''))]))"

text \<open>Statements run one after the other; the first exception ends the run.\<close>

fun run_steps ::
    "(client \<Rightarrow> (error + unit) \<times> client) list \<Rightarrow> client \<Rightarrow> (error + unit) \<times> client" where
  "run_steps [] c = (Inr (), c)"
| "run_steps (step # steps) c =
     (case step c of
        (Inl e, c') \<Rightarrow> (Inl e, c')
      | (Inr u, c') \<Rightarrow> run_steps steps c')"

definition test_steps :: "pylib \<Rightarrow> (client \<Rightarrow> (error + unit) \<times> client) list" where
  "test_steps L =
     [test_initialize L, test_list_tools L, test_navigate L, test_analyze_ui L,
      test_verify_page L, test_click_button L, test_run_flow L]"

definition run_tests :: "pylib \<Rightarrow> client \<Rightarrow> (error + unit) \<times> client" where
  "run_tests L c =
     (let c1 = print (10 # replicate 50 61) c;
          c2 = print (ascii ''UI-PROBE MCP PROTOCOL TEST SUITE'') c1;
          c3 = print (replicate 50 61) c2
      in case run_steps (test_steps L) c3 of
           (Inl e, c') \<Rightarrow> (Inl e, c')
         | (Inr u, c') \<Rightarrow> (Inr (), print (10 # 9989 # ascii '' All tests completed!'') c'))"

section \<open>Observing a run\<close>

text \<open>The texts written to the child's standard input, in order.\<close>

fun written :: "event list \<Rightarrow> pystr list" where
  "written [] = []"
| "written (Write s # es) = s # written es"
| "written (e # es) = written es"

text \<open>The operations on the child's streams, without the console output.\<close>

fun child_io :: "event list \<Rightarrow> event list" where
  "child_io [] = []"
| "child_io (Print s # es) = child_io es"
| "child_io (e # es) = e # child_io es"

text \<open>What the next \<open>readline\<close> on the child's standard output returns.\<close>

definition next_line :: "popen \<Rightarrow> pystr" where
  "next_line p = (case stdout_pending p of [] \<Rightarrow> [] | l # ls \<Rightarrow> l)"

text \<open>The request object of the wire format, with its four fields.\<close>

abbreviation rpc :: "pystr \<Rightarrow> pyval \<Rightarrow> int \<Rightarrow> pyval" where
  "rpc method params rid \<equiv>
     PyDict [(ascii ''jsonrpc'', PyStr (ascii ''2.0'')),
             (ascii ''method'', PyStr method),
             (ascii ''params'', params),
             (ascii ''id'', PyInt rid)]"

text \<open>A session: calls of \<open>send_request\<close> on one client, one after the other,
  whatever each of them returns or raises (a caller that catches the exception
  of a call can make the next one).\<close>

fun send_requests :: "pylib \<Rightarrow> client \<Rightarrow> (pystr \<times> pyval option) list \<Rightarrow> client" where
  "send_requests L c [] = c"
| "send_requests L c ((method, params) # calls) =
     send_requests L (snd (send_request L c method params)) calls"

text \<open>\<open>json.dumps\<close> accepts a call: it serialises the params for the console (line
  34) and the request for the child (line 37).\<close>

definition accepts :: "pylib \<Rightarrow> pystr \<Rightarrow> pyval option \<Rightarrow> int \<Rightarrow> bool" where
  "accepts L method params rid \<longleftrightarrow>
     \<not> isl (dumps_indent L (arg_value params))
     \<and> \<not> isl (dumps L (make_request method params rid))"

text \<open>A call gets its request through to the child: \<open>json.dumps\<close> accepts it and
  the pipe takes the write.\<close>

definition transmits :: "pylib \<Rightarrow> client \<Rightarrow> pystr \<Rightarrow> pyval option \<Rightarrow> bool" where
  "transmits L c method params \<longleftrightarrow>
     accepts L method params (request_id c) \<and> writes_left (process c) \<noteq> Some 0"

text \<open>\<open>json.dumps\<close> accepts every call of a list, the first with the identifier
  \<open>rid\<close>.\<close>

fun all_accepted :: "pylib \<Rightarrow> int \<Rightarrow> (pystr \<times> pyval option) list \<Rightarrow> bool" where
  "all_accepted L rid [] = True"
| "all_accepted L rid ((method, params) # calls) =
     (accepts L method params rid \<and> all_accepted L (rid + 1) calls)"

text \<open>The requests of a list of calls, numbered from \<open>rid\<close>, and the lines they make
  on the wire where \<open>json.dumps\<close> accepts them.\<close>

fun requests :: "int \<Rightarrow> (pystr \<times> pyval option) list \<Rightarrow> pyval list" where
  "requests rid [] = []"
| "requests rid ((method, params) # calls) =
     make_request method params rid # requests (rid + 1) calls"

definition wire :: "pylib \<Rightarrow> pyval \<Rightarrow> pystr" where
  "wire L request = projr (dumps L request) @ [10]"

text \<open>How many of \<open>n\<close> writes a pipe accepts.\<close>

definition accepted :: "nat option \<Rightarrow> nat \<Rightarrow> nat" where
  "accepted w n = (case w of None \<Rightarrow> n | Some b \<Rightarrow> min b n)"

text \<open>The child after a call of \<open>send_request\<close> that got its request through: it has
  used one write and one line.\<close>

definition used :: "popen \<Rightarrow> popen" where
  "used p = \<lparr>writes_left = map_option (\<lambda>k. k - 1) (writes_left p),
             stdout_pending = tl (stdout_pending p)\<rparr>"

text \<open>A step of the suite issues the request \<open>(m, p)\<close>: it makes one call of
  \<open>send_request\<close> with it and does nothing else to the child or to the counter.\<close>

definition issues ::
    "pylib \<Rightarrow> (client \<Rightarrow> (error + unit) \<times> client) \<Rightarrow> pystr \<Rightarrow> pyval option \<Rightarrow> bool" where
  "issues L step m p \<longleftrightarrow>
     (\<forall>c. request_id (snd (step c)) = request_id c + 1
        \<and> process (snd (step c)) = (if transmits L c m p then used (process c) else process c)
        \<and> written (trace (snd (step c))) =
            written (trace c) @ (if transmits L c m p
                                 then [wire L (make_request m p (request_id c))] else [])
        \<and> prefix (trace c) (trace (snd (step c)))
        \<and> (\<not> transmits L c m p \<longrightarrow> isl (fst (step c)))
        \<and> (transmits L c m p \<and> next_line (process c) = [] \<longrightarrow> fst (step c) = Inr ()))"



text \<open>The method and the params of the seven calls of \<open>run_tests\<close>, as they reach
  \<open>send_request\<close>.\<close>

definition suite_calls :: "(pystr \<times> pyval option) list" where
  "suite_calls =
     [(ascii ''initialize'',
         Some (PyDict [(ascii ''protocolVersion'', PyStr (ascii ''0.1.0'')),
                       (ascii ''capabilities'', PyDict [])])),
      (ascii ''tools/list'', Some (PyDict [])),
      (ascii ''tools/call'',
         Some (PyDict [(ascii ''name'', PyStr (ascii ''navigate'')),
                       (ascii ''arguments'',
                          PyDict [(ascii ''url'', PyStr (ascii ''http://localhost:8081/test''))])])),
      (ascii ''tools/call'',
         Some (PyDict [(ascii ''name'', PyStr (ascii ''analyze_ui'')),
                       (ascii ''arguments'', PyDict [])])),
      (ascii ''tools/call'',
         Some (PyDict [(ascii ''name'', PyStr (ascii ''verify_page'')),
                       (ascii ''arguments'',
                          PyDict [(ascii ''expectedContent'',
                                     PyList [PyStr (ascii ''Test''), PyStr (ascii ''Form'')]),
                                  (ascii ''unexpectedContent'',
                                     PyList [PyStr (ascii ''404''), PyStr (ascii ''Error'')])])])),
      (ascii ''tools/call'',
         Some (PyDict [(ascii ''name'', PyStr (ascii ''click_button'')),
                       (ascii ''arguments'', PyDict [(ascii ''text'', PyStr (ascii ''Submit''))])])),
      (ascii ''tools/call'',
         Some (PyDict [(ascii ''name'', PyStr (ascii ''run_flow'')),
                       (ascii ''arguments'',
                          PyDict [(ascii ''goal'',
                                     PyStr (ascii ''Fill out the test form with sample data'')),
                                  (ascii ''url'',
                                     PyStr (ascii ''http://localhost:8081/test/forms''))])]))]"


subsection \<open>Sample inputs\<close>

text \<open>An \<open>int\<close> of 4301 digits, one more than \<open>str\<close> and \<open>json.dumps\<close> convert.\<close>

definition int_over_limit :: int where
  "int_over_limit = 10 ^ 4300"

text \<open>A stand-in for the library. Its \<open>dumps\<close> writes only the identifier of a
  request; like \<open>json.dumps\<close> it raises \<open>ValueError\<close> for params that hold the
  \<open>int\<close> above. Its \<open>loads\<close> reads four lines only: \<open>{}\<close>, the listing of one tool,
  a listing whose tool has the description \<open>null\<close>, and \<open>NaN\<close>, which
  \<open>json.loads\<close> reads as a \<open>float\<close>; it rejects every other line. A client at
  its start with a given child.\<close>

abbreviation big_params :: pyval where
  "big_params \<equiv> PyDict [(ascii ''n'', PyInt int_over_limit)]"

abbreviation echo_line :: pystr where
  \<open>echo_line \<equiv>
     ascii ''{"jsonrpc":"2.0","id":1,"result":{"tools":[{"name":"navigate","description":"Navigate to a URL"}]}}''\<close>

abbreviation echo_response :: pyval where
  "echo_response \<equiv>
     PyDict [(ascii ''jsonrpc'', PyStr (ascii ''2.0'')),
             (ascii ''id'', PyInt 1),
             (ascii ''result'',
                PyDict [(ascii ''tools'',
                   PyList [PyDict [(ascii ''name'', PyStr (ascii ''navigate'')),
                                   (ascii ''description'',
                                      PyStr (ascii ''Navigate to a URL''))]])])]"

abbreviation null_line :: pystr where
  \<open>null_line \<equiv>
     ascii ''{"jsonrpc":"2.0","id":2,"result":{"tools":[{"name":"navigate","description":null}]}}''\<close>

abbreviation null_response :: pyval where
  "null_response \<equiv>
     PyDict [(ascii ''jsonrpc'', PyStr (ascii ''2.0'')),
             (ascii ''id'', PyInt 2),
             (ascii ''result'',
                PyDict [(ascii ''tools'',
                   PyList [PyDict [(ascii ''name'', PyStr (ascii ''navigate'')),
                                   (ascii ''description'', PyNone)]])])]"

abbreviation stub_lib :: pylib where
  "stub_lib \<equiv>
     \<lparr>dumps = (\<lambda>v. if py_getitem v (ascii ''params'') = Inr big_params then Inl ValueError
                    else case py_getitem v (ascii ''id'') of
                           Inr (PyInt i) \<Rightarrow> Inr (str_int i) | other \<Rightarrow> Inr []),
      dumps_indent = (\<lambda>v. if v = big_params then Inl ValueError else Inr []),
      loads = (\<lambda>s. if s = ascii ''{}'' @ [10] then Inr (PyDict [])
                    else if s = echo_line @ [10] then Inr echo_response
                    else if s = null_line @ [10] then Inr null_response
                    else if s = ascii ''NaN'' @ [10] then Inr (PyFloat 0x7FF8000000000000)
                    else Inl JSONDecodeError),
      repr = (\<lambda>v. [])\<rparr>"

abbreviation child :: "nat option \<Rightarrow> pystr list \<Rightarrow> client" where
  "child w ls \<equiv> \<lparr>process = \<lparr>writes_left = w, stdout_pending = ls\<rparr>, request_id = 1, trace = []\<rparr>"

section \<open>Properties\<close>

subsection \<open>Auxiliary facts\<close>

lemma ascii_eq_iff: "ascii s = ascii t \<longleftrightarrow> s = t"
  unfolding ascii_def by (simp add: inj_on_def)

lemma written_append: "written (xs @ ys) = written xs @ written ys"
  by (induction xs rule: written.induct) simp_all

lemma child_io_append: "child_io (xs @ ys) = child_io xs @ child_io ys"
  by (induction xs rule: child_io.induct) simp_all

lemma print_simps [simp]:
  "process (print s c) = process c"
  "request_id (print s c) = request_id c"
  "trace (print s c) = trace c @ [Print s]"
  by (simp_all add: print_def)

lemma acceptsD:
  assumes "accepts L m p rid"
  obtains pt rt where "dumps_indent L (arg_value p) = Inr pt"
    and "dumps L (make_request m p rid) = Inr rt"
    and "wire L (make_request m p rid) = rt @ [10]"
proof -
  from assms obtain pt where 1: "dumps_indent L (arg_value p) = Inr pt"
    by (cases "dumps_indent L (arg_value p)") (auto simp: accepts_def)
  from assms obtain rt where 2: "dumps L (make_request m p rid) = Inr rt"
    by (cases "dumps L (make_request m p rid)") (auto simp: accepts_def)
  from 2 have "wire L (make_request m p rid) = rt @ [10]" by (simp add: wire_def)
  with 1 2 show thesis by (rule that)
qed

lemma not_acceptsD:
  assumes "\<not> accepts L m p rid"
  shows "isl (dumps_indent L (arg_value p)) \<or> isl (dumps L (make_request m p rid))"
  using assms by (auto simp: accepts_def)

lemma send_request_request_id:
  "request_id (snd (send_request L c m p)) = request_id c + 1"
  by (simp add: send_request_def Let_def print_def stdin_write_def stdin_flush_def
      stdout_readline_def split: option.splits nat.splits list.splits prod.splits sum.splits)

lemma send_request_prefix: "prefix (trace c) (trace (snd (send_request L c m p)))"
  by (simp add: send_request_def Let_def print_def stdin_write_def stdin_flush_def
      stdout_readline_def split: option.splits nat.splits list.splits prod.splits sum.splits)

lemma send_request_rejected:
  assumes "\<not> accepts L m p (request_id c)"
  shows "isl (fst (send_request L c m p))"
    and "process (snd (send_request L c m p)) = process c"
    and "child_io (trace (snd (send_request L c m p))) = child_io (trace c)"
    and "written (trace (snd (send_request L c m p))) = written (trace c)"
  using not_acceptsD [OF assms]
  by (auto simp: send_request_def Let_def print_def child_io_append written_append
      split: sum.splits)

lemma send_request_broken:
  assumes "accepts L m p (request_id c)" and "writes_left (process c) = Some 0"
  shows "fst (send_request L c m p) = Inl BrokenPipeError"
    and "process (snd (send_request L c m p)) = process c"
    and "child_io (trace (snd (send_request L c m p))) = child_io (trace c)"
    and "written (trace (snd (send_request L c m p))) = written (trace c)"
proof -
  from assms(1) obtain pt rt where "dumps_indent L (arg_value p) = Inr pt"
    "dumps L (make_request m p (request_id c)) = Inr rt"
    by (rule acceptsD)
  with assms(2) show "fst (send_request L c m p) = Inl BrokenPipeError"
    and "process (snd (send_request L c m p)) = process c"
    and "child_io (trace (snd (send_request L c m p))) = child_io (trace c)"
    and "written (trace (snd (send_request L c m p))) = written (trace c)"
    by (simp_all add: send_request_def Let_def print_def stdin_write_def
        child_io_append written_append)
qed

lemma send_request_not_transmitted:
  assumes "\<not> transmits L c m p"
  shows "isl (fst (send_request L c m p))"
    and "process (snd (send_request L c m p)) = process c"
    and "child_io (trace (snd (send_request L c m p))) = child_io (trace c)"
    and "written (trace (snd (send_request L c m p))) = written (trace c)"
proof -
  from assms consider "\<not> accepts L m p (request_id c)"
    | "accepts L m p (request_id c)" "writes_left (process c) = Some 0"
    by (auto simp: transmits_def)
  then have "isl (fst (send_request L c m p))
      \<and> process (snd (send_request L c m p)) = process c
      \<and> child_io (trace (snd (send_request L c m p))) = child_io (trace c)
      \<and> written (trace (snd (send_request L c m p))) = written (trace c)"
  proof cases
    case 1
    then show ?thesis by (simp add: send_request_rejected)
  next
    case 2
    then show ?thesis by (simp add: send_request_broken)
  qed
  then show "isl (fst (send_request L c m p))"
    and "process (snd (send_request L c m p)) = process c"
    and "child_io (trace (snd (send_request L c m p))) = child_io (trace c)"
    and "written (trace (snd (send_request L c m p))) = written (trace c)"
    by simp_all
qed

lemma send_request_transmitted:
  assumes "transmits L c m p"
  shows "fst (send_request L c m p) =
    (if next_line (process c) = [] then Inr (PyDict [])
     else case loads L (next_line (process c)) of
            Inl e \<Rightarrow> Inl e
          | Inr v \<Rightarrow> (case dumps_indent L v of Inl e \<Rightarrow> Inl e | Inr t \<Rightarrow> Inr v))"
    and "process (snd (send_request L c m p)) = used (process c)"
    and "child_io (trace (snd (send_request L c m p))) =
           child_io (trace c) @ [Write (wire L (make_request m p (request_id c))), Flush,
                                 Readline (next_line (process c))]"
    and "written (trace (snd (send_request L c m p))) =
           written (trace c) @ [wire L (make_request m p (request_id c))]"
proof -
  from assms have a: "accepts L m p (request_id c)" and w: "writes_left (process c) \<noteq> Some 0"
    by (simp_all add: transmits_def)
  from a obtain pt rt where d: "dumps_indent L (arg_value p) = Inr pt"
    "dumps L (make_request m p (request_id c)) = Inr rt"
    "wire L (make_request m p (request_id c)) = rt @ [10]"
    by (rule acceptsD)
  from w d show "fst (send_request L c m p) =
    (if next_line (process c) = [] then Inr (PyDict [])
     else case loads L (next_line (process c)) of
            Inl e \<Rightarrow> Inl e
          | Inr v \<Rightarrow> (case dumps_indent L v of Inl e \<Rightarrow> Inl e | Inr t \<Rightarrow> Inr v))"
    by (simp add: send_request_def Let_def print_def stdin_write_def stdin_flush_def
        stdout_readline_def next_line_def
        split: option.splits nat.splits list.splits sum.splits)
  from w d show "process (snd (send_request L c m p)) = used (process c)"
    by (simp add: send_request_def Let_def print_def stdin_write_def stdin_flush_def
        stdout_readline_def next_line_def used_def
        split: option.splits nat.splits list.splits sum.splits)
  from w d show "child_io (trace (snd (send_request L c m p))) =
           child_io (trace c) @ [Write (wire L (make_request m p (request_id c))), Flush,
                                 Readline (next_line (process c))]"
    by (simp add: send_request_def Let_def print_def stdin_write_def stdin_flush_def
        stdout_readline_def next_line_def child_io_append
        split: option.splits nat.splits list.splits sum.splits)
  from w d show "written (trace (snd (send_request L c m p))) =
           written (trace c) @ [wire L (make_request m p (request_id c))]"
    by (simp add: send_request_def Let_def print_def stdin_write_def stdin_flush_def
        stdout_readline_def next_line_def written_append
        split: option.splits nat.splits list.splits sum.splits)
qed

lemma send_request_returns:
  assumes "fst (send_request L c m p) = Inr r"
  shows "transmits L c m p"
  using assms send_request_not_transmitted(1) [of L c m p] by auto

lemma accepted_step:
  "w \<noteq> Some 0 \<Longrightarrow> accepted w (Suc n) = Suc (accepted (map_option (\<lambda>k. k - 1) w) n)"
  by (cases w) (auto simp: accepted_def min_def)

lemma length_requests: "length (requests r cs) = length cs"
  by (induction cs arbitrary: r) auto

lemma requests_nth:
  "n < length cs \<Longrightarrow>
   requests r cs ! n = make_request (fst (cs ! n)) (snd (cs ! n)) (r + int n)"
proof (induction cs arbitrary: r n)
  case Nil
  then show ?case by simp
next
  case (Cons a cs)
  obtain m p where a: "a = (m, p)" by (cases a)
  show ?case
  proof (cases n)
    case 0
    then show ?thesis by (simp add: a)
  next
    case (Suc k)
    with Cons.prems have "k < length cs" by simp
    from Cons.IH [OF this, of "r + 1"] show ?thesis by (simp add: a Suc add.assoc)
  qed
qed

lemma all_accepted_nth:
  "all_accepted L r cs \<Longrightarrow> n < length cs \<Longrightarrow>
   accepts L (fst (cs ! n)) (snd (cs ! n)) (r + int n)"
proof (induction cs arbitrary: r n)
  case Nil
  then show ?case by simp
next
  case (Cons a cs)
  obtain m p where a: "a = (m, p)" by (cases a)
  show ?case
  proof (cases n)
    case 0
    with Cons.prems show ?thesis by (simp add: a)
  next
    case (Suc k)
    with Cons.prems have "k < length cs" "all_accepted L (r + 1) cs" by (simp_all add: a)
    from Cons.IH [OF this(2,1)] show ?thesis by (simp add: a Suc add.assoc)
  qed
qed

lemma written_send_requests:
  "all_accepted L (request_id c) calls \<Longrightarrow>
   written (trace (send_requests L c calls)) =
     written (trace c)
       @ map (wire L) (requests (request_id c)
           (take (accepted (writes_left (process c)) (length calls)) calls))"
proof (induction calls arbitrary: c)
  case Nil
  then show ?case by simp
next
  case (Cons call calls)
  obtain m p where call: "call = (m, p)" by (cases call)
  from Cons.prems have a: "accepts L m p (request_id c)"
    and rest: "all_accepted L (request_id c + 1) calls"
    by (simp_all add: call)
  define c' where "c' = snd (send_request L c m p)"
  have rid: "request_id c' = request_id c + 1"
    unfolding c'_def by (rule send_request_request_id)
  from rest have ih: "written (trace (send_requests L c' calls)) =
     written (trace c')
       @ map (wire L) (requests (request_id c + 1)
           (take (accepted (writes_left (process c')) (length calls)) calls))"
    using Cons.IH [of c'] by (simp add: rid)
  have eq: "send_requests L c (call # calls) = send_requests L c' calls"
    by (simp add: call c'_def)
  show ?case
  proof (cases "writes_left (process c) = Some 0")
    case True
    with a have "process c' = process c" "written (trace c') = written (trace c)"
      unfolding c'_def by (simp_all add: send_request_broken)
    with True show ?thesis unfolding eq ih by (simp add: accepted_def)
  next
    case False
    with a have t: "transmits L c m p" by (simp add: transmits_def)
    have "process c' = used (process c)"
      "written (trace c') = written (trace c) @ [wire L (make_request m p (request_id c))]"
      unfolding c'_def by (rule send_request_transmitted [OF t])+
    with False show ?thesis
      unfolding eq ih by (simp add: accepted_step used_def call)
  qed
qed

lemma written_send_requests_in_order:
  "\<exists>new ks. written (trace (send_requests L c calls)) = written (trace c) @ new
     \<and> sorted_wrt (<) ks \<and> (\<forall>k \<in> set ks. k < length calls)
     \<and> list_all2 (\<lambda>w k. \<exists>text.
           dumps L (make_request (fst (calls ! k)) (snd (calls ! k)) (request_id c + int k))
             = Inr text \<and> w = text @ [10]) new ks"
proof (induction calls arbitrary: c)
  case Nil
  show ?case by (intro exI [of _ "[]"]) simp
next
  case (Cons call calls)
  obtain m p where call: "call = (m, p)" by (cases call)
  define c' where "c' = snd (send_request L c m p)"
  have rid: "request_id c' = request_id c + 1"
    unfolding c'_def by (rule send_request_request_id)
  have eq: "send_requests L c (call # calls) = send_requests L c' calls"
    by (simp add: call c'_def)
  from Cons.IH [of c'] obtain new ks where
    w: "written (trace (send_requests L c' calls)) = written (trace c') @ new"
    and s: "sorted_wrt (<) ks" and b: "\<forall>k \<in> set ks. k < length calls"
    and l: "list_all2 (\<lambda>w k. \<exists>text.
           dumps L (make_request (fst (calls ! k)) (snd (calls ! k)) (request_id c + 1 + int k))
             = Inr text \<and> w = text @ [10]) new ks"
    unfolding rid by blast
  from l have l': "list_all2 (\<lambda>w k. \<exists>text.
           dumps L (make_request (fst ((call # calls) ! k)) (snd ((call # calls) ! k))
                      (request_id c + int k)) = Inr text \<and> w = text @ [10]) new (map Suc ks)"
    by (simp add: list_all2_map2 ac_simps)
  from s have s': "sorted_wrt (<) (map Suc ks)" by (simp add: sorted_wrt_map)
  from b have b': "\<forall>k \<in> set (map Suc ks). k < length (call # calls)" by auto
  show ?case
  proof (cases "transmits L c m p")
    case True
    then have a: "accepts L m p (request_id c)" by (simp add: transmits_def)
    then obtain rt where d: "dumps L (make_request m p (request_id c)) = Inr rt"
      "wire L (make_request m p (request_id c)) = rt @ [10]"
      by (rule acceptsD)
    have "written (trace c') = written (trace c) @ [rt @ [10]]"
      unfolding c'_def using send_request_transmitted(4) [OF True] d(2) by simp
    with w have "written (trace (send_requests L c (call # calls)))
        = written (trace c) @ (rt @ [10]) # new"
      unfolding eq by simp
    moreover from s' have "sorted_wrt (<) (0 # map Suc ks)" by auto
    moreover from b' have "\<forall>k \<in> set (0 # map Suc ks). k < length (call # calls)" by auto
    moreover from l' d(1) have "list_all2 (\<lambda>w k. \<exists>text.
           dumps L (make_request (fst ((call # calls) ! k)) (snd ((call # calls) ! k))
                      (request_id c + int k)) = Inr text \<and> w = text @ [10])
           ((rt @ [10]) # new) (0 # map Suc ks)"
      by (simp add: call)
    ultimately show ?thesis by blast
  next
    case False
    then have "written (trace c') = written (trace c)"
      unfolding c'_def by (rule send_request_not_transmitted)
    with w have "written (trace (send_requests L c (call # calls))) = written (trace c) @ new"
      unfolding eq by simp
    with s' b' l' show ?thesis by blast
  qed
qed

lemma print_tools_frame:
  "process (snd (print_tools L ts c)) = process c
   \<and> request_id (snd (print_tools L ts c)) = request_id c
   \<and> written (trace (snd (print_tools L ts c))) = written (trace c)
   \<and> prefix (trace c) (trace (snd (print_tools L ts c)))"
proof (induction ts arbitrary: c)
  case Nil
  then show ?case by simp
next
  case (Cons t ts)
  show ?case
  proof (cases "\<exists>n d e. py_get t (ascii ''name'') PyNone = Inr n
        \<and> py_get t (ascii ''description'') (PyStr []) = Inr d \<and> py_slice_to 60 d = Inr e")
    case True
    then obtain n d e where h: "py_get t (ascii ''name'') PyNone = Inr n"
      "py_get t (ascii ''description'') (PyStr []) = Inr d" "py_slice_to 60 d = Inr e"
      by blast
    let ?c1 = "print (ascii ''   - '' @ py_str L n @ ascii '': '' @ py_str L e @ ascii ''...'') c"
    have eq: "print_tools L (t # ts) c = print_tools L ts ?c1" by (simp add: h)
    from Cons.IH [of ?c1] show ?thesis
      unfolding eq by (auto simp: written_append dest: append_prefixD)
  next
    case False
    then have "print_tools L (t # ts) c = (fst (print_tools L (t # ts) c), c)"
      by (auto split: sum.splits)
    then have "snd (print_tools L (t # ts) c) = c" by (metis snd_conv)
    then show ?thesis by simp
  qed
qed

lemma show_tools_frame:
  "process (snd (show_tools L r c)) = process c
   \<and> request_id (snd (show_tools L r c)) = request_id c
   \<and> written (trace (snd (show_tools L r c))) = written (trace c)
   \<and> prefix (trace c) (trace (snd (show_tools L r c)))"
proof -
  have pt: "\<And>ts c'. c' = print s c \<Longrightarrow>
      process (snd (print_tools L ts c')) = process c
      \<and> request_id (snd (print_tools L ts c')) = request_id c
      \<and> written (trace (snd (print_tools L ts c'))) = written (trace c)
      \<and> prefix (trace c) (trace (snd (print_tools L ts c')))" for s
    using print_tools_frame [of L _ "print s c"]
    by (auto simp: written_append dest: append_prefixD)
  show ?thesis
    unfolding show_tools_def Let_def
    by (auto split: sum.splits bool.splits simp: pt written_append)
qed

subsection \<open>Auxiliary facts about the steps of the suite\<close>

lemma discard_simps [simp]:
  "snd (discard rc) = snd rc"
  "fst (discard rc) = (case fst rc of Inl e \<Rightarrow> Inl e | Inr r \<Rightarrow> Inr ())"
  by (auto simp: discard_def split: prod.splits sum.splits)

lemma transmits_print [simp]: "transmits L (print h c) m p = transmits L c m p"
  by (simp add: transmits_def)

lemma issues_discard:
  "issues L (\<lambda>c. discard (send_request L (print h c) m p)) m p"
  unfolding issues_def
proof (intro allI)
  fix c :: client
  define c1 where "c1 = print h c"
  have c1: "process c1 = process c" "request_id c1 = request_id c"
    "written (trace c1) = written (trace c)" "transmits L c1 m p = transmits L c m p"
    "prefix (trace c) (trace c1)"
    by (simp_all add: c1_def written_append)
  define step where "step = discard (send_request L c1 m p)"
  have rid: "request_id (snd step) = request_id c + 1"
    by (simp add: step_def send_request_request_id c1)
  have pre: "prefix (trace c) (trace (snd step))"
    using c1(5) send_request_prefix [of c1 L m p]
    unfolding step_def discard_simps by (rule prefix_order.trans)
  have "process (snd step) = (if transmits L c m p then used (process c) else process c)
      \<and> written (trace (snd step)) =
            written (trace c) @ (if transmits L c m p
                                 then [wire L (make_request m p (request_id c))] else [])
      \<and> (\<not> transmits L c m p \<longrightarrow> isl (fst step))
      \<and> (transmits L c m p \<and> next_line (process c) = [] \<longrightarrow> fst step = Inr ())"
  proof (cases "transmits L c m p")
    case True
    then have t: "transmits L c1 m p" by (simp add: c1)
    from send_request_transmitted [OF t] True show ?thesis
      by (simp add: step_def c1)
  next
    case False
    then have t: "\<not> transmits L c1 m p" by (simp add: c1)
    from send_request_not_transmitted [OF t] False show ?thesis
      by (auto simp: step_def c1 split: sum.splits)
  qed
  with rid pre show "request_id (snd (discard (send_request L (print h c) m p))) = request_id c + 1
      \<and> process (snd (discard (send_request L (print h c) m p))) =
          (if transmits L c m p then used (process c) else process c)
      \<and> written (trace (snd (discard (send_request L (print h c) m p)))) =
            written (trace c) @ (if transmits L c m p
                                 then [wire L (make_request m p (request_id c))] else [])
      \<and> prefix (trace c) (trace (snd (discard (send_request L (print h c) m p))))
      \<and> (\<not> transmits L c m p \<longrightarrow> isl (fst (discard (send_request L (print h c) m p))))
      \<and> (transmits L c m p \<and> next_line (process c) = []
           \<longrightarrow> fst (discard (send_request L (print h c) m p)) = Inr ())"
    unfolding step_def c1_def by blast
qed

lemma show_tools_empty: "show_tools L (PyDict []) c = (Inr (), c)"
  by (simp add: show_tools_def)

lemma test_list_tools_eq:
  "test_list_tools L c =
     (let rc = send_request L (print (10 # 50 # 65039 # 8419 # ascii ''  LIST AVAILABLE TOOLS'') c)
                 (ascii ''tools/list'') (Some (PyDict []))
      in case fst rc of Inl e \<Rightarrow> (Inl e, snd rc) | Inr r \<Rightarrow> show_tools L r (snd rc))"
  by (simp add: test_list_tools_def Let_def split: prod.splits sum.splits)

lemma issues_list_tools:
  "issues L (test_list_tools L) (ascii ''tools/list'') (Some (PyDict []))"
  unfolding issues_def
proof (intro allI)
  fix c :: client
  define m where "m = ascii ''tools/list''"
  define p where "p = Some (PyDict [])"
  define c1 where "c1 = print (10 # 50 # 65039 # 8419 # ascii ''  LIST AVAILABLE TOOLS'') c"
  define rc where "rc = send_request L c1 m p"
  have c1: "process c1 = process c" "request_id c1 = request_id c"
    "written (trace c1) = written (trace c)" "transmits L c1 m p = transmits L c m p"
    "prefix (trace c) (trace c1)"
    by (simp_all add: c1_def written_append)
  have eq: "test_list_tools L c =
      (case fst rc of Inl e \<Rightarrow> (Inl e, snd rc) | Inr r \<Rightarrow> show_tools L r (snd rc))"
    unfolding rc_def c1_def m_def p_def by (simp add: test_list_tools_eq Let_def)
  have rid: "request_id (snd rc) = request_id c + 1"
    by (simp add: rc_def send_request_request_id c1)
  have pre: "prefix (trace c) (trace (snd rc))"
    using c1(5) send_request_prefix [of c1 L m p]
    unfolding rc_def by (rule prefix_order.trans)
  have sent: "process (snd rc) = (if transmits L c m p then used (process c) else process c)
      \<and> written (trace (snd rc)) =
            written (trace c) @ (if transmits L c m p
                                 then [wire L (make_request m p (request_id c))] else [])
      \<and> (\<not> transmits L c m p \<longrightarrow> isl (fst rc))
      \<and> (transmits L c m p \<and> next_line (process c) = [] \<longrightarrow> fst rc = Inr (PyDict []))"
  proof (cases "transmits L c m p")
    case True
    then have t: "transmits L c1 m p" by (simp add: c1)
    from send_request_transmitted [OF t] True show ?thesis
      by (simp add: rc_def c1)
  next
    case False
    then have t: "\<not> transmits L c1 m p" by (simp add: c1)
    from send_request_not_transmitted [OF t] False show ?thesis
      by (simp add: rc_def c1)
  qed
  have "request_id (snd (test_list_tools L c)) = request_id c + 1
      \<and> process (snd (test_list_tools L c)) =
          (if transmits L c m p then used (process c) else process c)
      \<and> written (trace (snd (test_list_tools L c))) =
            written (trace c) @ (if transmits L c m p
                                 then [wire L (make_request m p (request_id c))] else [])
      \<and> prefix (trace c) (trace (snd (test_list_tools L c)))
      \<and> (\<not> transmits L c m p \<longrightarrow> isl (fst (test_list_tools L c)))
      \<and> (transmits L c m p \<and> next_line (process c) = []
           \<longrightarrow> fst (test_list_tools L c) = Inr ())"
  proof (cases "fst rc")
    case (Inl e)
    then have e: "test_list_tools L c = (Inl e, snd rc)" by (simp add: eq)
    from Inl sent have "\<not> (transmits L c m p \<and> next_line (process c) = [])" by auto
    with sent rid pre show ?thesis unfolding e by simp
  next
    case (Inr r)
    then have e: "test_list_tools L c = show_tools L r (snd rc)" by (simp add: eq)
    from Inr sent have t: "transmits L c m p" by auto
    from Inr sent have eof: "next_line (process c) = [] \<Longrightarrow> r = PyDict []" using t by auto
    from show_tools_frame [of L r "snd rc"] pre
    have pre': "prefix (trace c) (trace (snd (show_tools L r (snd rc))))"
      by (auto intro: prefix_order.trans)
    from show_tools_frame [of L r "snd rc"] pre' sent rid t eof show ?thesis
      unfolding e by (auto simp: show_tools_empty)
  qed
  then show "request_id (snd (test_list_tools L c)) = request_id c + 1
      \<and> process (snd (test_list_tools L c)) =
          (if transmits L c (ascii ''tools/list'') (Some (PyDict []))
           then used (process c) else process c)
      \<and> written (trace (snd (test_list_tools L c))) =
            written (trace c) @ (if transmits L c (ascii ''tools/list'') (Some (PyDict []))
                                 then [wire L (make_request (ascii ''tools/list'')
                                         (Some (PyDict [])) (request_id c))] else [])
      \<and> prefix (trace c) (trace (snd (test_list_tools L c)))
      \<and> (\<not> transmits L c (ascii ''tools/list'') (Some (PyDict []))
           \<longrightarrow> isl (fst (test_list_tools L c)))
      \<and> (transmits L c (ascii ''tools/list'') (Some (PyDict [])) \<and> next_line (process c) = []
           \<longrightarrow> fst (test_list_tools L c) = Inr ())"
    unfolding m_def p_def .
qed

lemma issues_steps:
  "list_all2 (\<lambda>step (m, p). issues L step m p) (test_steps L) suite_calls"
  unfolding test_steps_def test_initialize_def test_navigate_def test_analyze_ui_def
    test_verify_page_def test_click_button_def test_run_flow_def call_tool_def suite_calls_def
  by (simp add: issues_discard issues_list_tools)

lemma length_suite_calls: "length suite_calls = 7"
  by (simp add: suite_calls_def)

lemma issuesD:
  assumes "issues L step m p"
  shows "request_id (snd (step c)) = request_id c + 1"
    and "process (snd (step c)) = (if transmits L c m p then used (process c) else process c)"
    and "written (trace (snd (step c))) =
           written (trace c) @ (if transmits L c m p
                                then [wire L (make_request m p (request_id c))] else [])"
    and "prefix (trace c) (trace (snd (step c)))"
    and "\<not> transmits L c m p \<Longrightarrow> isl (fst (step c))"
    and "transmits L c m p \<Longrightarrow> next_line (process c) = [] \<Longrightarrow> fst (step c) = Inr ()"
  using assms unfolding issues_def by blast+

lemma run_steps_Inl:
  "fst (step c) = Inl e \<Longrightarrow> run_steps (step # steps) c = (Inl e, snd (step c))"
  by (cases "step c") simp

lemma run_steps_Inr:
  "fst (step c) = Inr u \<Longrightarrow> run_steps (step # steps) c = run_steps steps (snd (step c))"
  by (cases "step c") simp

lemma run_steps_written:
  assumes "list_all2 (\<lambda>step (m, p). issues L step m p) steps calls"
  shows "\<exists>j \<le> length calls.
           written (trace (snd (run_steps steps c))) =
             written (trace c) @ map (wire L) (take j (requests (request_id c) calls))
           \<and> (\<forall>i < j. accepts L (fst (calls ! i)) (snd (calls ! i)) (request_id c + int i))
           \<and> (fst (run_steps steps c) = Inr () \<longrightarrow> j = length calls)"
  using assms
proof (induction steps calls arbitrary: c rule: list_all2_induct)
  case Nil
  then show ?case by simp
next
  case (Cons step steps call calls)
  obtain m p where call: "call = (m, p)" by (cases call)
  from Cons.hyps(1) have iss: "issues L step m p" by (simp add: call)
  define c' where "c' = snd (step c)"
  define doc where "doc = wire L (make_request m p (request_id c))"
  have rid: "request_id c' = request_id c + 1"
    and wr: "written (trace c') =
               written (trace c) @ (if transmits L c m p then [doc] else [])"
    unfolding c'_def doc_def by (rule issuesD [OF iss])+
  have failed: "\<not> transmits L c m p \<Longrightarrow> isl (fst (step c))"
    by (rule issuesD [OF iss])
  have rs: "requests (request_id c) (call # calls)
      = make_request m p (request_id c) # requests (request_id c') calls"
    by (simp add: call rid)
  show ?case
  proof (cases "fst (step c)")
    case (Inl e)
    then have eq: "run_steps (step # steps) c = (Inl e, c')"
      unfolding c'_def by (rule run_steps_Inl)
    show ?thesis
    proof (cases "transmits L c m p")
      case False
      with wr show ?thesis unfolding eq by (intro exI [of _ 0]) simp
    next
      case True
      then have "accepts L m p (request_id c)" by (simp add: transmits_def)
      with True wr show ?thesis
        unfolding eq rs by (intro exI [of _ 1]) (simp add: doc_def call)
    qed
  next
    case (Inr u)
    then have eq: "run_steps (step # steps) c = run_steps steps c'"
      unfolding c'_def by (rule run_steps_Inr)
    from Inr failed have t: "transmits L c m p" by auto
    then have a: "accepts L m p (request_id c)" by (simp add: transmits_def)
    from t wr have wr': "written (trace c') = written (trace c) @ [doc]" by simp
    from Cons.IH [of c'] obtain j where j: "j \<le> length calls"
      "written (trace (snd (run_steps steps c'))) =
         written (trace c') @ map (wire L) (take j (requests (request_id c') calls))"
      "\<forall>i < j. accepts L (fst (calls ! i)) (snd (calls ! i)) (request_id c' + int i)"
      "fst (run_steps steps c') = Inr () \<longrightarrow> j = length calls"
      by blast
    have acc: "\<forall>i < Suc j. accepts L (fst ((call # calls) ! i)) (snd ((call # calls) ! i))
        (request_id c + int i)"
    proof (intro allI impI)
      fix i assume i: "i < Suc j"
      show "accepts L (fst ((call # calls) ! i)) (snd ((call # calls) ! i))
        (request_id c + int i)"
      proof (cases i)
        case 0
        with a show ?thesis by (simp add: call)
      next
        case (Suc k)
        with i j(3) have "accepts L (fst (calls ! k)) (snd (calls ! k)) (request_id c' + int k)"
          by simp
        then show ?thesis by (simp add: Suc rid ac_simps)
      qed
    qed
    from j(1,2,4) acc show ?thesis
      unfolding eq rs wr' by (intro exI [of _ "Suc j"]) (simp add: doc_def)
  qed
qed



lemma list_all2_seven:
  assumes "list_all2 P [a1, a2, a3, a4, a5, a6, a7] ys"
  obtains b1 b2 b3 b4 b5 b6 b7 where "ys = [b1, b2, b3, b4, b5, b6, b7]"
    and "P a1 b1" and "P a2 b2" and "P a3 b3" and "P a4 b4" and "P a5 b5" and "P a6 b6"
    and "P a7 b7"
  using assms by (auto simp: list_all2_Cons1)

lemma take_seven: "take 7 [a1, a2, a3, a4, a5, a6, a7] = [a1, a2, a3, a4, a5, a6, a7]"
  by simp

lemma run_steps_eof:
  assumes "list_all2 (\<lambda>step (m, p). issues L step m p) steps calls"
    and "all_accepted L (request_id c) calls"
    and "writes_left (process c) = None"
    and "stdout_pending (process c) = []"
  shows "fst (run_steps steps c) = Inr ()"
  using assms
proof (induction steps calls arbitrary: c rule: list_all2_induct)
  case Nil
  then show ?case by simp
next
  case (Cons step steps call calls)
  obtain m p where call: "call = (m, p)" by (cases call)
  from Cons.hyps(1) have iss: "issues L step m p" by (simp add: call)
  from Cons.prems have t: "transmits L c m p"
    and rest: "all_accepted L (request_id c + 1) calls"
    by (simp_all add: call transmits_def)
  from Cons.prems have ok: "fst (step c) = Inr ()"
    by (intro issuesD(6) [OF iss t]) (simp add: next_line_def)
  have pr: "process (snd (step c)) = used (process c)"
    "request_id (snd (step c)) = request_id c + 1"
    using issuesD(1,2) [OF iss, of c] t by simp_all
  from ok have eq: "run_steps (step # steps) c = run_steps steps (snd (step c))"
    by (rule run_steps_Inr)
  from pr Cons.prems rest have "all_accepted L (request_id (snd (step c))) calls"
    "writes_left (process (snd (step c))) = None"
    "stdout_pending (process (snd (step c))) = []"
    by (simp_all add: used_def)
  then show ?case unfolding eq by (rule Cons.IH)
qed

lemma run_tests_eq:
  "run_tests L c =
     (let rc = run_steps (test_steps L)
                 (print (replicate 50 61)
                   (print (ascii ''UI-PROBE MCP PROTOCOL TEST SUITE'')
                     (print (10 # replicate 50 61) c)))
      in case fst rc of
           Inl e \<Rightarrow> (Inl e, snd rc)
         | Inr u \<Rightarrow> (Inr (), print (10 # 9989 # ascii '' All tests completed!'') (snd rc)))"
  by (simp add: run_tests_def Let_def split: prod.splits sum.splits)

lemma run_tests_fst:
  "fst (run_tests L c) =
     fst (run_steps (test_steps L)
            (print (replicate 50 61)
              (print (ascii ''UI-PROBE MCP PROTOCOL TEST SUITE'')
                (print (10 # replicate 50 61) c))))"
  by (simp add: run_tests_eq Let_def split: sum.splits)

lemma next_ids: "(r::int) + 1 + 1 = r + 2" "r + 2 + 1 = r + 3" "r + 3 + 1 = r + 4"
  "r + 4 + 1 = r + 5" "r + 5 + 1 = r + 6"
  by simp_all

lemma kept_params: "py_or (arg_value (Some (PyDict (kv # kvs)))) d = PyDict (kv # kvs)"
  "py_or (arg_value (Some (PyDict []))) (PyDict []) = PyDict []"
  by (simp_all add: py_or_def arg_value_def)

lemma suite_requests: "requests r suite_calls =
         [rpc (ascii ''initialize'')
            (PyDict [(ascii ''protocolVersion'', PyStr (ascii ''0.1.0'')),
                     (ascii ''capabilities'', PyDict [])])
            r,
          rpc (ascii ''tools/list'') (PyDict []) (r + 1),
          rpc (ascii ''tools/call'')
            (PyDict [(ascii ''name'', PyStr (ascii ''navigate'')),
                     (ascii ''arguments'',
                        PyDict [(ascii ''url'', PyStr (ascii ''http://localhost:8081/test''))])])
            (r + 2),
          rpc (ascii ''tools/call'')
            (PyDict [(ascii ''name'', PyStr (ascii ''analyze_ui'')),
                     (ascii ''arguments'', PyDict [])])
            (r + 3),
          rpc (ascii ''tools/call'')
            (PyDict [(ascii ''name'', PyStr (ascii ''verify_page'')),
                     (ascii ''arguments'',
                        PyDict [(ascii ''expectedContent'',
                                   PyList [PyStr (ascii ''Test''), PyStr (ascii ''Form'')]),
                                (ascii ''unexpectedContent'',
                                   PyList [PyStr (ascii ''404''), PyStr (ascii ''Error'')])])])
            (r + 4),
          rpc (ascii ''tools/call'')
            (PyDict [(ascii ''name'', PyStr (ascii ''click_button'')),
                     (ascii ''arguments'', PyDict [(ascii ''text'', PyStr (ascii ''Submit''))])])
            (r + 5),
          rpc (ascii ''tools/call'')
            (PyDict [(ascii ''name'', PyStr (ascii ''run_flow'')),
                     (ascii ''arguments'',
                        PyDict [(ascii ''goal'',
                                   PyStr (ascii ''Fill out the test form with sample data'')),
                                (ascii ''url'',
                                   PyStr (ascii ''http://localhost:8081/test/forms''))])])
            (r + 6)]"
  by (simp only: suite_calls_def requests.simps make_request_def kept_params next_ids)

lemma dumped_requests:
  assumes "\<forall>i < j. accepts L (fst (cs ! i)) (snd (cs ! i)) (r + int i)" and "j \<le> length cs"
  shows "list_all2 (\<lambda>request text. dumps L request = Inr text)
           (take j (requests r cs)) (map (\<lambda>request. projr (dumps L request)) (take j (requests r cs)))"
    and "map (wire L) (take j (requests r cs)) =
           map (\<lambda>text. text @ [10])
             (map (\<lambda>request. projr (dumps L request)) (take j (requests r cs)))"
proof -
  show "list_all2 (\<lambda>request text. dumps L request = Inr text)
           (take j (requests r cs)) (map (\<lambda>request. projr (dumps L request)) (take j (requests r cs)))"
  proof (rule list_all2_all_nthI)
    show "length (take j (requests r cs)) =
        length (map (\<lambda>request. projr (dumps L request)) (take j (requests r cs)))"
      by simp
  next
    fix n assume "n < length (take j (requests r cs))"
    with assms(2) have n: "n < j" "n < length cs" by (simp_all add: length_requests)
    with assms(1) have "accepts L (fst (cs ! n)) (snd (cs ! n)) (r + int n)" by simp
    then obtain rt where "dumps L (make_request (fst (cs ! n)) (snd (cs ! n)) (r + int n)) = Inr rt"
      by (rule acceptsD)
    with n show "dumps L (take j (requests r cs) ! n) =
        Inr (map (\<lambda>request. projr (dumps L request)) (take j (requests r cs)) ! n)"
      by (simp add: requests_nth length_requests)
  qed
  show "map (wire L) (take j (requests r cs)) =
           map (\<lambda>text. text @ [10])
             (map (\<lambda>request. projr (dumps L request)) (take j (requests r cs)))"
    by (simp add: wire_def)
qed








text \<open>An entry of the tool list that is not an object, or whose description is not a
  string, stops the listing with an exception.\<close>

lemma print_tools_raises:
  "print_tools L (PyInt n # ts) c = (Inl AttributeError, c)"
  "print_tools L (PyDict [(ascii ''name'', PyStr s), (ascii ''description'', PyNone)] # ts) c
     = (Inl TypeError, c)"
  by (simp_all add: ascii_eq_iff)

subsection \<open>Request identifiers\<close>




subsection \<open>\<open>call_tool\<close>\<close>

text \<open>
  Claim C2. For every tool name and every arguments value, \<open>call_tool\<close> writes one
  request whose method is \<open>tools/call\<close> and whose params are the mapping of \<open>name\<close>
  to the tool name and of \<open>arguments\<close> to the arguments (when \<open>json.dumps\<close> accepts
  the params and the request, and the child's standard input takes the write).
\<close>

theorem call_tool_request:
  assumes "writes_left (process c) \<noteq> Some 0"
    and "dumps_indent L (PyDict [(ascii ''name'', PyStr tool_name),
                                  (ascii ''arguments'', arguments)]) = Inr shown"
    and "dumps L (rpc (ascii ''tools/call'')
                    (PyDict [(ascii ''name'', PyStr tool_name),
                             (ascii ''arguments'', arguments)])
                    (request_id c)) = Inr text"
  shows "written (trace (snd (call_tool L c tool_name arguments))) =
           written (trace c) @ [text @ [10]]"
proof -
  let ?p = "Some (PyDict [(ascii ''name'', PyStr tool_name), (ascii ''arguments'', arguments)])"
  have r: "make_request (ascii ''tools/call'') ?p (request_id c) =
      rpc (ascii ''tools/call'')
        (PyDict [(ascii ''name'', PyStr tool_name), (ascii ''arguments'', arguments)])
        (request_id c)"
    by (simp add: make_request_def py_or_def arg_value_def)
  from assms have t: "transmits L c (ascii ''tools/call'') ?p"
    unfolding transmits_def accepts_def r by (simp add: arg_value_def)
  from send_request_transmitted(4) [OF t] assms(3) show ?thesis
    unfolding call_tool_def wire_def r by simp
qed

theorem call_tool_request_witness:
  "writes_left (process (child None [])) \<noteq> Some 0
   \<and> dumps_indent stub_lib (PyDict [(ascii ''name'', PyStr (ascii ''navigate'')),
                                     (ascii ''arguments'', PyDict [])]) = Inr []
   \<and> dumps stub_lib (rpc (ascii ''tools/call'')
                       (PyDict [(ascii ''name'', PyStr (ascii ''navigate'')),
                                (ascii ''arguments'', PyDict [])]) 1) = Inr [49]
   \<and> written (trace (snd (call_tool stub_lib (child None []) (ascii ''navigate'') (PyDict []))))
       = [[49, 10]]"
proof -
  have h: "writes_left (process (child None [])) \<noteq> Some 0"
    "dumps_indent stub_lib (PyDict [(ascii ''name'', PyStr (ascii ''navigate'')),
                                     (ascii ''arguments'', PyDict [])]) = Inr []"
    "dumps stub_lib (rpc (ascii ''tools/call'')
                       (PyDict [(ascii ''name'', PyStr (ascii ''navigate'')),
                                (ascii ''arguments'', PyDict [])])
                       (request_id (child None []))) = Inr [49]"
    by (simp_all add: ascii_eq_iff str_int_def)
  from call_tool_request [OF h] h show ?thesis by simp
qed

subsection \<open>The end of the stream\<close>

text \<open>
  Claim C3. When the line read from the child is empty (its standard output is at
  its end), \<open>send_request\<close> returns the empty mapping and raises nothing, whatever
  the method and the params, and so does \<open>call_tool\<close>. In \<open>run_tests\<close> every one of
  the seven steps then returns and the run goes on with the step after it; with
  a child that keeps its standard input open the whole run completes. A call
  gets to the read when \<open>json.dumps\<close> has accepted its params and its request and
  the child's standard input has taken the write.
\<close>

theorem end_of_stream_is_empty_response:
  assumes "writes_left (process c) \<noteq> Some 0"
    and "next_line (process c) = []"
  shows "(accepts L m p (request_id c) \<longrightarrow> fst (send_request L c m p) = Inr (PyDict []))
       \<and> (accepts L (ascii ''tools/call'')
              (Some (PyDict [(ascii ''name'', PyStr tool_name),
                             (ascii ''arguments'', arguments)])) (request_id c)
            \<longrightarrow> fst (call_tool L c tool_name arguments) = Inr (PyDict []))
       \<and> (\<forall>k < length (test_steps L).
            accepts L (fst (suite_calls ! k)) (snd (suite_calls ! k)) (request_id c) \<longrightarrow>
            fst ((test_steps L ! k) c) = Inr ()
            \<and> run_steps (drop k (test_steps L)) c =
                run_steps (drop (Suc k) (test_steps L)) (snd ((test_steps L ! k) c)))
       \<and> (all_accepted L (request_id c) suite_calls
            \<and> writes_left (process c) = None \<and> stdout_pending (process c) = []
            \<longrightarrow> fst (run_tests L c) = Inr ())"
proof (intro conjI)
  show "accepts L m p (request_id c) \<longrightarrow> fst (send_request L c m p) = Inr (PyDict [])"
    using assms by (simp add: send_request_transmitted(1) transmits_def)
  show "accepts L (ascii ''tools/call'')
              (Some (PyDict [(ascii ''name'', PyStr tool_name),
                             (ascii ''arguments'', arguments)])) (request_id c)
            \<longrightarrow> fst (call_tool L c tool_name arguments) = Inr (PyDict [])"
    using assms by (simp add: call_tool_def send_request_transmitted(1) transmits_def)
  show "\<forall>k < length (test_steps L).
            accepts L (fst (suite_calls ! k)) (snd (suite_calls ! k)) (request_id c) \<longrightarrow>
            fst ((test_steps L ! k) c) = Inr ()
            \<and> run_steps (drop k (test_steps L)) c =
                run_steps (drop (Suc k) (test_steps L)) (snd ((test_steps L ! k) c))"
  proof (intro allI impI)
    fix k
    assume k: "k < length (test_steps L)"
      and a: "accepts L (fst (suite_calls ! k)) (snd (suite_calls ! k)) (request_id c)"
    obtain m' p' where mp: "suite_calls ! k = (m', p')" by (cases "suite_calls ! k")
    from list_all2_nthD [OF issues_steps k] have iss: "issues L (test_steps L ! k) m' p'"
      by (simp add: mp)
    from a assms(1) have t: "transmits L c m' p'" by (simp add: transmits_def mp)
    from issuesD(6) [OF iss t assms(2)] have ok: "fst ((test_steps L ! k) c) = Inr ()" .
    have "drop k (test_steps L) = test_steps L ! k # drop (Suc k) (test_steps L)"
      using k by (rule Cons_nth_drop_Suc [symmetric])
    with run_steps_Inr [of "test_steps L ! k" c "()" "drop (Suc k) (test_steps L)", OF ok]
    have "run_steps (drop k (test_steps L)) c =
          run_steps (drop (Suc k) (test_steps L)) (snd ((test_steps L ! k) c))"
      by simp
    with ok show "fst ((test_steps L ! k) c) = Inr ()
            \<and> run_steps (drop k (test_steps L)) c =
                run_steps (drop (Suc k) (test_steps L)) (snd ((test_steps L ! k) c))"
      by (rule conjI)
  qed
  show "all_accepted L (request_id c) suite_calls
            \<and> writes_left (process c) = None \<and> stdout_pending (process c) = []
            \<longrightarrow> fst (run_tests L c) = Inr ()"
    unfolding run_tests_fst by (intro impI run_steps_eof [OF issues_steps]) simp_all
qed

theorem end_of_stream_is_empty_response_witness:
  "writes_left (process (child None [])) \<noteq> Some 0
   \<and> next_line (process (child None [])) = []
   \<and> stdout_pending (process (child None [])) = []
   \<and> accepts stub_lib (ascii ''ping'') None 1
   \<and> all_accepted stub_lib 1 suite_calls
   \<and> fst (send_request stub_lib (child None []) (ascii ''ping'') None) = Inr (PyDict [])
   \<and> fst (call_tool stub_lib (child None []) (ascii ''navigate'') (PyDict [])) = Inr (PyDict [])
   \<and> fst (test_list_tools stub_lib (child None [])) = Inr ()
   \<and> fst (run_tests stub_lib (child None [])) = Inr ()"
proof -
  have k: "1 < length (test_steps stub_lib)"
    by (simp add: test_steps_def)
  have s: "test_steps stub_lib ! 1 = test_list_tools stub_lib"
    by (simp add: test_steps_def)
  have a: "writes_left (process (child None [])) \<noteq> Some 0"
    "next_line (process (child None [])) = []"
    "writes_left (process (child None [])) = None \<and> stdout_pending (process (child None [])) = []"
    by (simp_all add: next_line_def)
  have c1: "accepts stub_lib (ascii ''ping'') None (request_id (child None []))"
    by (simp add: accepts_def make_request_def py_or_def arg_value_def ascii_eq_iff)
  have c2: "accepts stub_lib (ascii ''tools/call'')
              (Some (PyDict [(ascii ''name'', PyStr (ascii ''navigate'')),
                             (ascii ''arguments'', PyDict [])])) (request_id (child None []))"
    by (simp add: accepts_def make_request_def py_or_def arg_value_def ascii_eq_iff)
  have c3: "accepts stub_lib (fst (suite_calls ! 1)) (snd (suite_calls ! 1))
      (request_id (child None []))"
    by (simp add: suite_calls_def accepts_def make_request_def py_or_def arg_value_def
        ascii_eq_iff)
  have c4: "all_accepted stub_lib (request_id (child None [])) suite_calls"
    by (simp add: suite_calls_def accepts_def make_request_def py_or_def arg_value_def
        ascii_eq_iff)
  note inst = end_of_stream_is_empty_response [OF a(1,2), of stub_lib "ascii ''ping''" None
      "ascii ''navigate''" "PyDict []"]
  from inst c1 have 1: "fst (send_request stub_lib (child None []) (ascii ''ping'') None) = Inr (PyDict [])"
    by (elim conjE) blast
  from inst c2 have 2: "fst (call_tool stub_lib (child None []) (ascii ''navigate'') (PyDict [])) = Inr (PyDict [])"
    by (elim conjE) blast
  from inst have "\<forall>k < length (test_steps stub_lib).
            accepts stub_lib (fst (suite_calls ! k)) (snd (suite_calls ! k))
              (request_id (child None [])) \<longrightarrow>
            fst ((test_steps stub_lib ! k) (child None [])) = Inr ()
            \<and> run_steps (drop k (test_steps stub_lib)) (child None []) =
                run_steps (drop (Suc k) (test_steps stub_lib)) (snd ((test_steps stub_lib ! k) (child None [])))"
    by (elim conjE)
  with k c3 have "fst ((test_steps stub_lib ! 1) (child None [])) = Inr ()" by blast
  then have 3: "fst (test_list_tools stub_lib (child None [])) = Inr ()" by (simp only: s)
  from inst a(3) c4 have 4: "fst (run_tests stub_lib (child None [])) = Inr ()"
    by (elim conjE) blast
  from c1 have c1': "accepts stub_lib (ascii ''ping'') None 1" by simp
  from c4 have c4': "all_accepted stub_lib 1 suite_calls" by simp
  from a c1' c4' 1 2 3 4 show ?thesis by simp
qed

subsection \<open>One write, one flush, one read\<close>

text \<open>
  Claim C4. A call of \<open>send_request\<close> that returns has done exactly three things to
  the child's streams, in this order: one write of the request as one JSON
  document followed by one newline, one flush, and one \<open>readline\<close>. The one text
  it has added to the child's standard input is that document with its newline.
\<close>

theorem send_request_one_write_one_read:
  assumes "fst (send_request L c m p) = Inr r"
  shows "\<exists>text. dumps L (make_request m p (request_id c)) = Inr text
       \<and> child_io (trace (snd (send_request L c m p))) =
           child_io (trace c) @ [Write (text @ [10]), Flush, Readline (next_line (process c))]
       \<and> written (trace (snd (send_request L c m p))) = written (trace c) @ [text @ [10]]"
proof -
  from assms have t: "transmits L c m p" by (rule send_request_returns)
  then have "accepts L m p (request_id c)" by (simp add: transmits_def)
  then obtain rt where d: "dumps L (make_request m p (request_id c)) = Inr rt"
    "wire L (make_request m p (request_id c)) = rt @ [10]"
    by (rule acceptsD)
  from send_request_transmitted(3,4) [OF t] d show ?thesis by simp
qed

theorem send_request_one_write_one_read_witness:
  "fst (send_request stub_lib (child None []) (ascii ''ping'') None) = Inr (PyDict [])
   \<and> dumps stub_lib (make_request (ascii ''ping'') None 1) = Inr [49]
   \<and> child_io (trace (snd (send_request stub_lib (child None []) (ascii ''ping'') None)))
       = [Write [49, 10], Flush, Readline []]
   \<and> written (trace (snd (send_request stub_lib (child None []) (ascii ''ping'') None)))
       = [[49, 10]]"
proof -
  have h: "fst (send_request stub_lib (child None []) (ascii ''ping'') None) = Inr (PyDict [])"
    by (simp add: send_request_def Let_def print_def stdin_write_def stdin_flush_def
      stdout_readline_def make_request_def py_or_def arg_value_def ascii_eq_iff)
  have d: "dumps stub_lib (make_request (ascii ''ping'') None 1) = Inr [49]"
    by (simp add: make_request_def py_or_def arg_value_def ascii_eq_iff str_int_def)
  from send_request_one_write_one_read [OF h] h d show ?thesis
    by (simp add: next_line_def)
qed

subsection \<open>The params field\<close>

text \<open>
  Claim C5, as stated, fails: a supplied empty list is not transmitted, the params
  field is the empty mapping instead; and the field is the empty mapping for a
  supplied empty mapping too, not only when the argument is omitted.
\<close>

theorem falsy_params_counterexample:
  "py_getitem (make_request (ascii ''tools/list'') (Some (PyList [])) 1) (ascii ''params'')
     = Inr (PyDict [])
   \<and> PyDict [] \<noteq> PyList []
   \<and> py_getitem (make_request (ascii ''tools/list'') (Some (PyDict [])) 1) (ascii ''params'')
     = Inr (PyDict [])"
  by (simp add: make_request_def py_or_def arg_value_def ascii_eq_iff)

text \<open>
  Claim C5, amended. The params field of the transmitted request is the supplied
  value when that value is true in Python's sense (a non-empty mapping, list or
  string, a non-zero number, \<open>True\<close>); it is the empty mapping when the argument is
  omitted and when the supplied value is false in that sense (\<open>None\<close>, an empty
  mapping, list or string, zero, \<open>False\<close>).
\<close>

theorem params_field_of_request:
  "py_getitem (make_request m p r) (ascii ''params'') =
     Inr (case p of None \<Rightarrow> PyDict []
          | Some v \<Rightarrow> if py_truthy v then v else PyDict [])
   \<and> (writes_left (process c) \<noteq> Some 0 \<and> accepts L m p (request_id c) \<longrightarrow>
        (\<exists>text. dumps L (rpc m (case p of None \<Rightarrow> PyDict []
                                 | Some v \<Rightarrow> if py_truthy v then v else PyDict [])
                            (request_id c)) = Inr text
           \<and> written (trace (snd (send_request L c m p))) = written (trace c) @ [text @ [10]]))"
proof (intro conjI impI)
  show "py_getitem (make_request m p r) (ascii ''params'') =
     Inr (case p of None \<Rightarrow> PyDict []
          | Some v \<Rightarrow> if py_truthy v then v else PyDict [])"
    by (simp add: make_request_def py_or_def arg_value_def ascii_eq_iff split: option.splits)
  assume h: "writes_left (process c) \<noteq> Some 0 \<and> accepts L m p (request_id c)"
  then have t: "transmits L c m p" by (simp add: transmits_def)
  from h obtain rt where d: "dumps L (make_request m p (request_id c)) = Inr rt"
    "wire L (make_request m p (request_id c)) = rt @ [10]"
    by (blast elim: acceptsD)
  have r: "make_request m p (request_id c) =
      rpc m (case p of None \<Rightarrow> PyDict [] | Some v \<Rightarrow> if py_truthy v then v else PyDict [])
        (request_id c)"
    by (simp add: make_request_def py_or_def arg_value_def split: option.splits)
  from send_request_transmitted(4) [OF t] d
  have "dumps L (make_request m p (request_id c)) = Inr rt
      \<and> written (trace (snd (send_request L c m p))) = written (trace c) @ [rt @ [10]]"
    by simp
  then show "\<exists>text. dumps L (rpc m (case p of None \<Rightarrow> PyDict []
                                 | Some v \<Rightarrow> if py_truthy v then v else PyDict [])
                            (request_id c)) = Inr text
           \<and> written (trace (snd (send_request L c m p))) = written (trace c) @ [text @ [10]]"
    unfolding r by (rule exI)
qed

theorem params_field_of_request_witness:
  "py_getitem (make_request (ascii ''ping'') (Some (PyInt 0)) 1) (ascii ''params'') = Inr (PyDict [])
   \<and> writes_left (process (child None [])) \<noteq> Some 0
   \<and> accepts stub_lib (ascii ''ping'') (Some (PyInt 0)) 1
   \<and> dumps stub_lib (rpc (ascii ''ping'') (PyDict []) 1) = Inr [49]
   \<and> written (trace (snd (send_request stub_lib (child None []) (ascii ''ping'') (Some (PyInt 0)))))
       = [[49, 10]]"
proof -
  have a: "accepts stub_lib (ascii ''ping'') (Some (PyInt 0)) (request_id (child None []))"
    by (simp add: accepts_def make_request_def py_or_def arg_value_def ascii_eq_iff)
  have d: "dumps stub_lib (rpc (ascii ''ping'') (PyDict []) 1) = Inr [49]"
    by (simp add: ascii_eq_iff str_int_def)
  from params_field_of_request [of "ascii ''ping''" "Some (PyInt 0)" 1 "child None []" stub_lib]
    a d
  show ?thesis by simp
qed

subsection \<open>The seven requests of the suite\<close>

text \<open>
  Claim C6. \<open>run_tests\<close> writes the requests of a fixed list, in its order and with
  consecutive identifiers: \<open>initialize\<close>, \<open>tools/list\<close>, and \<open>tools/call\<close> for
  \<open>navigate\<close>, \<open>analyze_ui\<close>, \<open>verify_page\<close>, \<open>click_button\<close> and \<open>run_flow\<close>. A run
  that returns has written exactly these seven, each as the text \<open>json.dumps\<close>
  makes of it and a newline; a run that an exception ends has written the first
  ones of them and nothing else.
\<close>

theorem run_tests_requests:
  "\<exists>j \<le> 7. \<exists>texts.
     list_all2 (\<lambda>request text. dumps L request = Inr text)
       (take j
         [rpc (ascii ''initialize'')
            (PyDict [(ascii ''protocolVersion'', PyStr (ascii ''0.1.0'')),
                     (ascii ''capabilities'', PyDict [])])
            (request_id c),
          rpc (ascii ''tools/list'') (PyDict []) (request_id c + 1),
          rpc (ascii ''tools/call'')
            (PyDict [(ascii ''name'', PyStr (ascii ''navigate'')),
                     (ascii ''arguments'',
                        PyDict [(ascii ''url'', PyStr (ascii ''http://localhost:8081/test''))])])
            (request_id c + 2),
          rpc (ascii ''tools/call'')
            (PyDict [(ascii ''name'', PyStr (ascii ''analyze_ui'')),
                     (ascii ''arguments'', PyDict [])])
            (request_id c + 3),
          rpc (ascii ''tools/call'')
            (PyDict [(ascii ''name'', PyStr (ascii ''verify_page'')),
                     (ascii ''arguments'',
                        PyDict [(ascii ''expectedContent'',
                                   PyList [PyStr (ascii ''Test''), PyStr (ascii ''Form'')]),
                                (ascii ''unexpectedContent'',
                                   PyList [PyStr (ascii ''404''), PyStr (ascii ''Error'')])])])
            (request_id c + 4),
          rpc (ascii ''tools/call'')
            (PyDict [(ascii ''name'', PyStr (ascii ''click_button'')),
                     (ascii ''arguments'', PyDict [(ascii ''text'', PyStr (ascii ''Submit''))])])
            (request_id c + 5),
          rpc (ascii ''tools/call'')
            (PyDict [(ascii ''name'', PyStr (ascii ''run_flow'')),
                     (ascii ''arguments'',
                        PyDict [(ascii ''goal'',
                                   PyStr (ascii ''Fill out the test form with sample data'')),
                                (ascii ''url'',
                                   PyStr (ascii ''http://localhost:8081/test/forms''))])])
            (request_id c + 6)])
       texts
     \<and> written (trace (snd (run_tests L c))) =
         written (trace c) @ map (\<lambda>text. text @ [10]) texts
     \<and> (fst (run_tests L c) = Inr () \<longrightarrow> j = 7)"
  (is "\<exists>j \<le> 7. \<exists>texts. list_all2 ?P (take j ?seven) texts \<and> _ \<and> _")
proof -
  define c3 where "c3 = print (replicate 50 61)
               (print (ascii ''UI-PROBE MCP PROTOCOL TEST SUITE'')
                 (print (10 # replicate 50 61) c))"
  define rc where "rc = run_steps (test_steps L) c3"
  define rs where "rs = requests (request_id c) suite_calls"
  have pre: "written (trace c3) = written (trace c)" "request_id c3 = request_id c"
    by (simp_all add: c3_def written_append)
  have "\<exists>j \<le> 7. written (trace (snd rc)) = written (trace c) @ map (wire L) (take j rs)
          \<and> (\<forall>i < j. accepts L (fst (suite_calls ! i)) (snd (suite_calls ! i))
                       (request_id c + int i))
          \<and> (fst rc = Inr () \<longrightarrow> j = 7)"
    using run_steps_written [OF issues_steps, of L c3]
    by (simp only: length_suite_calls pre rc_def rs_def)
  then obtain j where j: "j \<le> 7"
    and w: "written (trace (snd rc)) = written (trace c) @ map (wire L) (take j rs)"
    and a: "\<forall>i < j. accepts L (fst (suite_calls ! i)) (snd (suite_calls ! i))
                       (request_id c + int i)"
    and f: "fst rc = Inr () \<longrightarrow> j = 7"
    by blast
  define texts where "texts = map (\<lambda>request. projr (dumps L request)) (take j rs)"
  from j have jl: "j \<le> length suite_calls" by (simp only: length_suite_calls)
  have l: "list_all2 ?P (take j rs) texts"
    unfolding texts_def rs_def by (rule dumped_requests(1) [OF a jl])
  have m: "map (wire L) (take j rs) = map (\<lambda>text. text @ [10]) texts"
    unfolding texts_def rs_def by (rule dumped_requests(2) [OF a jl])
  have run: "run_tests L c =
      (case fst rc of
         Inl e \<Rightarrow> (Inl e, snd rc)
       | Inr u \<Rightarrow> (Inr (), print (10 # 9989 # ascii '' All tests completed!'') (snd rc)))"
    by (simp only: run_tests_eq Let_def rc_def c3_def)
  have snd_eq: "written (trace (snd (run_tests L c))) = written (trace (snd rc))"
    by (simp add: run written_append split: sum.splits)
  have fst_eq: "fst (run_tests L c) = Inr () \<Longrightarrow> fst rc = Inr ()"
    by (simp add: run split: sum.splits)
  have seven: "rs = ?seven"
    unfolding rs_def by (rule suite_requests)
  show ?thesis
  proof (intro exI [of _ j] exI [of _ texts] conjI)
    show "j \<le> 7" by (rule j)
    show "list_all2 ?P (take j ?seven) texts"
      using l by (simp only: seven)
    show "written (trace (snd (run_tests L c))) =
         written (trace c) @ map (\<lambda>text. text @ [10]) texts"
      by (simp only: snd_eq w m)
    show "fst (run_tests L c) = Inr () \<longrightarrow> j = 7"
      using f fst_eq by blast
  qed
qed

theorem run_tests_requests_witness:
  "fst (run_tests stub_lib (child None [])) = Inr ()
   \<and> written (trace (snd (run_tests stub_lib (child None [])))) =
       [[49, 10], [50, 10], [51, 10], [52, 10], [53, 10], [54, 10], [55, 10]]"
proof -
  let ?c = "child None []"
  have dumps_same: "\<And>request b t. dumps stub_lib request = Inr b \<Longrightarrow>
      dumps stub_lib request = Inr t \<Longrightarrow> b = t"
    by simp
  have r: "fst (run_tests stub_lib ?c) = Inr ()"
    unfolding run_tests_fst
    by (intro run_steps_eof [OF issues_steps])
       (simp_all add: suite_calls_def accepts_def make_request_def py_or_def arg_value_def
          ascii_eq_iff)
  have d1: "dumps stub_lib (rpc (ascii ''initialize'')
            (PyDict [(ascii ''protocolVersion'', PyStr (ascii ''0.1.0'')),
                     (ascii ''capabilities'', PyDict [])])
            (request_id ?c)) = Inr [49]"
    by (simp add: ascii_eq_iff str_int_def)
  have d2: "dumps stub_lib (rpc (ascii ''tools/list'') (PyDict []) (request_id ?c + 1)) = Inr [50]"
    by (simp add: ascii_eq_iff str_int_def)
  have d3: "dumps stub_lib (rpc (ascii ''tools/call'')
            (PyDict [(ascii ''name'', PyStr (ascii ''navigate'')),
                     (ascii ''arguments'',
                        PyDict [(ascii ''url'', PyStr (ascii ''http://localhost:8081/test''))])])
            (request_id ?c + 2)) = Inr [51]"
    by (simp add: ascii_eq_iff str_int_def)
  have d4: "dumps stub_lib (rpc (ascii ''tools/call'')
            (PyDict [(ascii ''name'', PyStr (ascii ''analyze_ui'')),
                     (ascii ''arguments'', PyDict [])])
            (request_id ?c + 3)) = Inr [52]"
    by (simp add: ascii_eq_iff str_int_def)
  have d5: "dumps stub_lib (rpc (ascii ''tools/call'')
            (PyDict [(ascii ''name'', PyStr (ascii ''verify_page'')),
                     (ascii ''arguments'',
                        PyDict [(ascii ''expectedContent'',
                                   PyList [PyStr (ascii ''Test''), PyStr (ascii ''Form'')]),
                                (ascii ''unexpectedContent'',
                                   PyList [PyStr (ascii ''404''), PyStr (ascii ''Error'')])])])
            (request_id ?c + 4)) = Inr [53]"
    by (simp add: ascii_eq_iff str_int_def)
  have d6: "dumps stub_lib (rpc (ascii ''tools/call'')
            (PyDict [(ascii ''name'', PyStr (ascii ''click_button'')),
                     (ascii ''arguments'', PyDict [(ascii ''text'', PyStr (ascii ''Submit''))])])
            (request_id ?c + 5)) = Inr [54]"
    by (simp add: ascii_eq_iff str_int_def)
  have d7: "dumps stub_lib (rpc (ascii ''tools/call'')
            (PyDict [(ascii ''name'', PyStr (ascii ''run_flow'')),
                     (ascii ''arguments'',
                        PyDict [(ascii ''goal'',
                                   PyStr (ascii ''Fill out the test form with sample data'')),
                                (ascii ''url'',
                                   PyStr (ascii ''http://localhost:8081/test/forms''))])])
            (request_id ?c + 6)) = Inr [55]"
    by (simp add: ascii_eq_iff str_int_def)
  from run_tests_requests [of stub_lib ?c] obtain j texts where j: "j \<le> 7"
    and l: "list_all2 (\<lambda>request text. dumps stub_lib request = Inr text)
       (take j
         [rpc (ascii ''initialize'')
            (PyDict [(ascii ''protocolVersion'', PyStr (ascii ''0.1.0'')),
                     (ascii ''capabilities'', PyDict [])])
            (request_id ?c),
          rpc (ascii ''tools/list'') (PyDict []) (request_id ?c + 1),
          rpc (ascii ''tools/call'')
            (PyDict [(ascii ''name'', PyStr (ascii ''navigate'')),
                     (ascii ''arguments'',
                        PyDict [(ascii ''url'', PyStr (ascii ''http://localhost:8081/test''))])])
            (request_id ?c + 2),
          rpc (ascii ''tools/call'')
            (PyDict [(ascii ''name'', PyStr (ascii ''analyze_ui'')),
                     (ascii ''arguments'', PyDict [])])
            (request_id ?c + 3),
          rpc (ascii ''tools/call'')
            (PyDict [(ascii ''name'', PyStr (ascii ''verify_page'')),
                     (ascii ''arguments'',
                        PyDict [(ascii ''expectedContent'',
                                   PyList [PyStr (ascii ''Test''), PyStr (ascii ''Form'')]),
                                (ascii ''unexpectedContent'',
                                   PyList [PyStr (ascii ''404''), PyStr (ascii ''Error'')])])])
            (request_id ?c + 4),
          rpc (ascii ''tools/call'')
            (PyDict [(ascii ''name'', PyStr (ascii ''click_button'')),
                     (ascii ''arguments'', PyDict [(ascii ''text'', PyStr (ascii ''Submit''))])])
            (request_id ?c + 5),
          rpc (ascii ''tools/call'')
            (PyDict [(ascii ''name'', PyStr (ascii ''run_flow'')),
                     (ascii ''arguments'',
                        PyDict [(ascii ''goal'',
                                   PyStr (ascii ''Fill out the test form with sample data'')),
                                (ascii ''url'',
                                   PyStr (ascii ''http://localhost:8081/test/forms''))])])
            (request_id ?c + 6)])
       texts"
    and w: "written (trace (snd (run_tests stub_lib ?c))) =
         written (trace ?c) @ map (\<lambda>text. text @ [10]) texts"
    and f: "fst (run_tests stub_lib ?c) = Inr () \<longrightarrow> j = 7"
    by blast
  from f r have j7: "j = 7" by blast
  from l obtain b1 b2 b3 b4 b5 b6 b7 where t: "texts = [b1, b2, b3, b4, b5, b6, b7]"
    and p1: "dumps stub_lib (rpc (ascii ''initialize'')
            (PyDict [(ascii ''protocolVersion'', PyStr (ascii ''0.1.0'')),
                     (ascii ''capabilities'', PyDict [])])
            (request_id ?c)) = Inr b1"
    and p2: "dumps stub_lib (rpc (ascii ''tools/list'') (PyDict []) (request_id ?c + 1)) = Inr b2"
    and p3: "dumps stub_lib (rpc (ascii ''tools/call'')
            (PyDict [(ascii ''name'', PyStr (ascii ''navigate'')),
                     (ascii ''arguments'',
                        PyDict [(ascii ''url'', PyStr (ascii ''http://localhost:8081/test''))])])
            (request_id ?c + 2)) = Inr b3"
    and p4: "dumps stub_lib (rpc (ascii ''tools/call'')
            (PyDict [(ascii ''name'', PyStr (ascii ''analyze_ui'')),
                     (ascii ''arguments'', PyDict [])])
            (request_id ?c + 3)) = Inr b4"
    and p5: "dumps stub_lib (rpc (ascii ''tools/call'')
            (PyDict [(ascii ''name'', PyStr (ascii ''verify_page'')),
                     (ascii ''arguments'',
                        PyDict [(ascii ''expectedContent'',
                                   PyList [PyStr (ascii ''Test''), PyStr (ascii ''Form'')]),
                                (ascii ''unexpectedContent'',
                                   PyList [PyStr (ascii ''404''), PyStr (ascii ''Error'')])])])
            (request_id ?c + 4)) = Inr b5"
    and p6: "dumps stub_lib (rpc (ascii ''tools/call'')
            (PyDict [(ascii ''name'', PyStr (ascii ''click_button'')),
                     (ascii ''arguments'', PyDict [(ascii ''text'', PyStr (ascii ''Submit''))])])
            (request_id ?c + 5)) = Inr b6"
    and p7: "dumps stub_lib (rpc (ascii ''tools/call'')
            (PyDict [(ascii ''name'', PyStr (ascii ''run_flow'')),
                     (ascii ''arguments'',
                        PyDict [(ascii ''goal'',
                                   PyStr (ascii ''Fill out the test form with sample data'')),
                                (ascii ''url'',
                                   PyStr (ascii ''http://localhost:8081/test/forms''))])])
            (request_id ?c + 6)) = Inr b7"
    unfolding j7 take_seven by (rule list_all2_seven)
  from p1 d1 have e1: "b1 = [49]" by (rule dumps_same)
  from p2 d2 have e2: "b2 = [50]" by (rule dumps_same)
  from p3 d3 have e3: "b3 = [51]" by (rule dumps_same)
  from p4 d4 have e4: "b4 = [52]" by (rule dumps_same)
  from p5 d5 have e5: "b5 = [53]" by (rule dumps_same)
  from p6 d6 have e6: "b6 = [54]" by (rule dumps_same)
  from p7 d7 have e7: "b7 = [55]" by (rule dumps_same)
  have "written (trace (snd (run_tests stub_lib ?c))) =
       [[49, 10], [50, 10], [51, 10], [52, 10], [53, 10], [54, 10], [55, 10]]"
    unfolding w t e1 e2 e3 e4 e5 e6 e7 by simp
  with r show ?thesis by (rule conjI)
qed

subsection \<open>The listing of the tools\<close>




subsection \<open>The response\<close>






subsection \<open>The counter after a failed call\<close>

text \<open>
  Claim C10. Every call of \<open>send_request\<close> advances the counter by exactly one,
  whatever its outcome. The increment comes before the first operation on the
  child: a call whose write fails, or whose request \<open>json.dumps\<close> rejects, has done
  nothing to the child's streams and has still advanced the counter. The calls
  that follow carry the next identifiers, so the identifier of a failed request
  is not issued again.
\<close>

theorem send_request_consumes_identifier:
  "request_id (snd (send_request L c m p)) = request_id c + 1
   \<and> (writes_left (process c) = Some 0 \<or> \<not> accepts L m p (request_id c) \<longrightarrow>
        isl (fst (send_request L c m p))
        \<and> child_io (trace (snd (send_request L c m p))) = child_io (trace c))
   \<and> (writes_left (process c) = Some 0 \<and> accepts L m p (request_id c) \<longrightarrow>
        fst (send_request L c m p) = Inl BrokenPipeError)
   \<and> (\<exists>ks. sorted_wrt (<) ks \<and> (\<forall>k \<in> set ks. k < length calls)
         \<and> list_all2 (\<lambda>w k. \<exists>text.
               dumps L (make_request (fst (calls ! k)) (snd (calls ! k))
                          (request_id c + 1 + int k)) = Inr text \<and> w = text @ [10])
             (drop (length (written (trace (snd (send_request L c m p)))))
                (written (trace (send_requests L (snd (send_request L c m p)) calls)))) ks)
   \<and> (all_accepted L (request_id c + 1) calls \<longrightarrow>
       (\<forall>n < length (written (trace (send_requests L (snd (send_request L c m p)) calls)))
              - length (written (trace (snd (send_request L c m p)))).
        n < length calls
        \<and> (\<exists>text. dumps L (make_request (fst (calls ! n)) (snd (calls ! n))
                              (request_id c + 1 + int n)) = Inr text
             \<and> written (trace (send_requests L (snd (send_request L c m p)) calls))
                 ! (length (written (trace (snd (send_request L c m p)))) + n)
               = text @ [10])))"
proof (intro conjI)
  let ?c' = "snd (send_request L c m p)"
  have rid: "request_id ?c' = request_id c + 1"
    by (rule send_request_request_id)
  show "request_id ?c' = request_id c + 1" by (rule rid)
  show "writes_left (process c) = Some 0 \<or> \<not> accepts L m p (request_id c) \<longrightarrow>
        isl (fst (send_request L c m p))
        \<and> child_io (trace ?c') = child_io (trace c)"
  proof
    assume "writes_left (process c) = Some 0 \<or> \<not> accepts L m p (request_id c)"
    then have "\<not> transmits L c m p" by (auto simp: transmits_def)
    then show "isl (fst (send_request L c m p)) \<and> child_io (trace ?c') = child_io (trace c)"
      by (simp add: send_request_not_transmitted)
  qed
  show "writes_left (process c) = Some 0 \<and> accepts L m p (request_id c) \<longrightarrow>
        fst (send_request L c m p) = Inl BrokenPipeError"
    by (simp add: send_request_broken)
  from written_send_requests_in_order [of L ?c' calls]
  show "\<exists>ks. sorted_wrt (<) ks \<and> (\<forall>k \<in> set ks. k < length calls)
         \<and> list_all2 (\<lambda>w k. \<exists>text.
               dumps L (make_request (fst (calls ! k)) (snd (calls ! k))
                          (request_id c + 1 + int k)) = Inr text \<and> w = text @ [10])
             (drop (length (written (trace ?c')))
                (written (trace (send_requests L ?c' calls)))) ks"
    unfolding rid by auto
  show "all_accepted L (request_id c + 1) calls \<longrightarrow>
       (\<forall>n < length (written (trace (send_requests L ?c' calls)))
              - length (written (trace ?c')).
        n < length calls
        \<and> (\<exists>text. dumps L (make_request (fst (calls ! n)) (snd (calls ! n))
                              (request_id c + 1 + int n)) = Inr text
             \<and> written (trace (send_requests L ?c' calls))
                 ! (length (written (trace ?c')) + n)
               = text @ [10]))"
  proof (intro impI allI)
    fix n
    let ?k = "accepted (writes_left (process ?c')) (length calls)"
    assume a: "all_accepted L (request_id c + 1) calls"
      and n: "n < length (written (trace (send_requests L ?c' calls)))
                 - length (written (trace ?c'))"
    from a have w: "written (trace (send_requests L ?c' calls)) =
             written (trace ?c') @ map (wire L) (requests (request_id c + 1) (take ?k calls))"
      by (simp add: written_send_requests rid)
    from n w have nk: "n < length (take ?k calls)" by (simp add: length_requests)
    then have nl: "n < length calls" by simp
    from all_accepted_nth [OF a nl]
    obtain rt where d:
      "dumps L (make_request (fst (calls ! n)) (snd (calls ! n)) (request_id c + 1 + int n))
         = Inr rt"
      "wire L (make_request (fst (calls ! n)) (snd (calls ! n)) (request_id c + 1 + int n))
         = rt @ [10]"
      by (rule acceptsD)
    from nk have "requests (request_id c + 1) (take ?k calls) ! n =
        make_request (fst (take ?k calls ! n)) (snd (take ?k calls ! n))
                 (request_id c + 1 + int n)"
      by (rule requests_nth)
    moreover from nk have "take ?k calls ! n = calls ! n" by simp
    ultimately have "written (trace (send_requests L ?c' calls))
            ! (length (written (trace ?c')) + n) = rt @ [10]"
      using nk d(2) by (simp add: w nth_append length_requests)
    with nl d(1) show "n < length calls
        \<and> (\<exists>text. dumps L (make_request (fst (calls ! n)) (snd (calls ! n))
                              (request_id c + 1 + int n)) = Inr text
             \<and> written (trace (send_requests L ?c' calls))
                 ! (length (written (trace ?c')) + n)
               = text @ [10])"
      by simp
  qed
qed

theorem send_request_consumes_identifier_witness:
  "request_id (snd (send_request stub_lib (child (Some 0) []) (ascii ''ping'') None)) = 2
   \<and> fst (send_request stub_lib (child (Some 0) []) (ascii ''ping'') None) = Inl BrokenPipeError
   \<and> child_io (trace (snd (send_request stub_lib (child (Some 0) []) (ascii ''ping'') None))) = []
   \<and> fst (send_request stub_lib (child None []) (ascii ''ping'') (Some big_params))
       = Inl ValueError
   \<and> request_id (snd (send_request stub_lib (child None []) (ascii ''ping'') (Some big_params)))
       = 2
   \<and> child_io (trace (snd (send_request stub_lib (child None []) (ascii ''ping'')
        (Some big_params)))) = []
   \<and> fst (send_request stub_lib (child None [ascii ''oops'' @ [10]]) (ascii ''ping'') None)
       = Inl JSONDecodeError
   \<and> written (trace (send_requests stub_lib
        (snd (send_request stub_lib (child None [ascii ''oops'' @ [10]]) (ascii ''ping'') None))
        [(ascii ''again'', None)])) = [[49, 10], [50, 10]]"
proof -
  let ?b = "child (Some 0) []" and ?c = "child None [ascii ''oops'' @ [10]]"
  let ?d = "child None []"
  have b: "writes_left (process ?b) = Some 0"
    "accepts stub_lib (ascii ''ping'') None (request_id ?b)"
    by (simp_all add: accepts_def make_request_def py_or_def arg_value_def ascii_eq_iff)
  have d: "\<not> accepts stub_lib (ascii ''ping'') (Some big_params) (request_id ?d)"
    by (simp add: accepts_def arg_value_def)
  have v: "fst (send_request stub_lib ?d (ascii ''ping'') (Some big_params)) = Inl ValueError"
    by (simp add: send_request_def Let_def arg_value_def)
  have e: "fst (send_request stub_lib ?c (ascii ''ping'') None) = Inl JSONDecodeError"
    by (simp add: send_request_def Let_def print_def stdin_write_def stdin_flush_def
      stdout_readline_def make_request_def py_or_def arg_value_def ascii_eq_iff)
  have w: "written (trace (send_requests stub_lib
        (snd (send_request stub_lib ?c (ascii ''ping'') None)) [(ascii ''again'', None)]))
      = [[49, 10], [50, 10]]"
    by (simp add: send_request_def Let_def print_def stdin_write_def stdin_flush_def
      stdout_readline_def make_request_def py_or_def arg_value_def ascii_eq_iff str_int_def)
  from send_request_consumes_identifier [of stub_lib ?b "ascii ''ping''" None "[]"] b
  have 1: "request_id (snd (send_request stub_lib ?b (ascii ''ping'') None)) = 2"
    "fst (send_request stub_lib ?b (ascii ''ping'') None) = Inl BrokenPipeError"
    "child_io (trace (snd (send_request stub_lib ?b (ascii ''ping'') None))) = []"
    by simp_all
  from send_request_consumes_identifier [of stub_lib ?d "ascii ''ping''" "Some big_params" "[]"] d
  have 2: "request_id (snd (send_request stub_lib ?d (ascii ''ping'') (Some big_params))) = 2"
    "child_io (trace (snd (send_request stub_lib ?d (ascii ''ping'') (Some big_params)))) = []"
    by simp_all
  from 1 v 2 e w show ?thesis by (intro conjI)
qed

end
